theory Spec2Isabelle
  imports Main "HOL-Library.AList"
begin

section \<open>JavaScript strings\<close>

text \<open>
  A JavaScript string is modelled as a \<^typ>\<open>string\<close>: a list of 8-bit code units. Code units
  above \<open>0xFF\<close> are outside the model. The white space of \<open>String.prototype.trim\<close> and of
  the regular-expression class \<open>\s\<close> is, in this range, TAB, LF, VT, FF, CR, SPACE and NBSP.
\<close>

definition is_space :: "char \<Rightarrow> bool" where
  "is_space c = (c \<in> set [CHR 0x09, CHR 0x0A, CHR 0x0B, CHR 0x0C, CHR 0x0D, CHR 0x20, CHR 0xA0])"

definition trim :: "string \<Rightarrow> string" where
  "trim s = rev (dropWhile is_space (rev (dropWhile is_space s)))"

fun startsWith :: "string \<Rightarrow> string \<Rightarrow> bool" where
  "startsWith s [] = True"
| "startsWith [] (p # ps) = False"
| "startsWith (c # cs) (p # ps) = (c = p \<and> startsWith cs ps)"

definition endsWith :: "string \<Rightarrow> string \<Rightarrow> bool" where
  "endsWith s p = startsWith (rev s) (rev p)"

fun str_includes :: "string \<Rightarrow> string \<Rightarrow> bool" where
  "str_includes [] p = (p = [])"
| "str_includes (c # cs) p = (if startsWith (c # cs) p then True else str_includes cs p)"

text \<open>\<open>s.split('\n')\<close>: always at least one piece.\<close>

fun split_nl :: "string \<Rightarrow> string list" where
  "split_nl [] = [[]]"
| "split_nl (c # cs) =
     (if c = CHR 0x0A then [] # split_nl cs
      else (case split_nl cs of [] \<Rightarrow> [[c]] | l # ls \<Rightarrow> (c # l) # ls))"

text \<open>Decimal digits of a non-negative integer, as a template literal prints it.\<close>

function dec :: "nat \<Rightarrow> string" where
  "dec n = (if n < 10 then [char_of (48 + n)] else dec (n div 10) @ [char_of (48 + n mod 10)])"
  by pat_completeness auto
termination
  by (relation "measure id") auto

declare dec.simps [simp del]

section \<open>Regular expressions\<close>

text \<open>
  The regular expressions of the source are transcribed into the datatype \<open>rx\<close> and run by
  a backtracking matcher in continuation-passing style, which tries the alternatives in
  the order in which the ECMAScript matcher tries them: a greedy quantifier first takes
  one more repetition, a lazy one first tries the continuation. \<open>Many\<close> and \<open>ManyL\<close> are
  the greedy and the lazy star of a character class, \<open>Rep\<close> the greedy star of any
  expression (an iteration that matches the empty string is rejected), \<open>Grp\<close> a capture
  group and \<open>Eos\<close> the assertion \<open>$\<close> without the multiline flag. A match state is the
  position reached and the rest of the input; a capture is the pair of positions it
  spans.
\<close>

datatype cls = CAny | CSpace | CWord | CDigit | COneOf string | CNoneOf string

fun in_cls :: "cls \<Rightarrow> char \<Rightarrow> bool" where
  "in_cls CAny c = True"
| "in_cls CSpace c = is_space c"
| "in_cls CWord c = (c \<in> set ''abcdefghijklmnopqrstuvwxyzABCDEFGHIJKLMNOPQRSTUVWXYZ0123456789_'')"
| "in_cls CDigit c = (c \<in> set ''0123456789'')"
| "in_cls (COneOf cs) c = (c \<in> set cs)"
| "in_cls (CNoneOf cs) c = (c \<notin> set cs)"

datatype rx =
    Lit string | LitI string | Cl cls | Seq rx rx | Alt rx rx
  | Many cls | ManyL cls | Rep rx | Opt rx | Grp nat rx | Eos

type_synonym caps = "(nat \<times> nat \<times> nat) list"
type_synonym mstate = "nat \<times> string"

text \<open>Case folding of the \<open>i\<close> flag; the patterns that use it are ASCII letters.\<close>

definition lower :: "char \<Rightarrow> char" where
  "lower c = (case map_of (zip ''ABCDEFGHIJKLMNOPQRSTUVWXYZ'' ''abcdefghijklmnopqrstuvwxyz'') c of
                None \<Rightarrow> c | Some l \<Rightarrow> l)"

fun lit :: "bool \<Rightarrow> string \<Rightarrow> mstate \<Rightarrow> mstate option" where
  "lit ci [] st = Some st"
| "lit ci (p # ps) (i, []) = None"
| "lit ci (p # ps) (i, a # t) =
     (if (if ci then lower a = lower p else a = p) then lit ci ps (Suc i, t) else None)"

function (sequential) rx_match ::
  "rx \<Rightarrow> mstate \<Rightarrow> caps \<Rightarrow> (mstate \<Rightarrow> caps \<Rightarrow> 'a option) \<Rightarrow> 'a option" where
  "rx_match (Lit l) st c k = (case lit False l st of None \<Rightarrow> None | Some st' \<Rightarrow> k st' c)"
| "rx_match (LitI l) st c k = (case lit True l st of None \<Rightarrow> None | Some st' \<Rightarrow> k st' c)"
| "rx_match (Cl x) (i, s) c k =
     (case s of [] \<Rightarrow> None | a # t \<Rightarrow> if in_cls x a then k (Suc i, t) c else None)"
| "rx_match (Seq a b) st c k = rx_match a st c (\<lambda>st' c'. rx_match b st' c' k)"
| "rx_match (Alt a b) st c k =
     (case rx_match a st c k of Some r \<Rightarrow> Some r | None \<Rightarrow> rx_match b st c k)"
| "rx_match (Many x) (i, s) c k =
     (case s of [] \<Rightarrow> k (i, s) c
      | a # t \<Rightarrow>
          if in_cls x a
          then (case rx_match (Many x) (Suc i, t) c k of Some r \<Rightarrow> Some r | None \<Rightarrow> k (i, s) c)
          else k (i, s) c)"
| "rx_match (ManyL x) (i, s) c k =
     (case k (i, s) c of Some r \<Rightarrow> Some r
      | None \<Rightarrow>
          (case s of [] \<Rightarrow> None
           | a # t \<Rightarrow> if in_cls x a then rx_match (ManyL x) (Suc i, t) c k else None))"
| "rx_match (Rep a) st c k =
     (case rx_match a st c
             (\<lambda>st' c'. if length (snd st') < length (snd st) then rx_match (Rep a) st' c' k
                        else None) of
        Some r \<Rightarrow> Some r | None \<Rightarrow> k st c)"
| "rx_match (Opt a) st c k =
     (case rx_match a st c k of Some r \<Rightarrow> Some r | None \<Rightarrow> k st c)"
| "rx_match (Grp n a) st c k = rx_match a st c (\<lambda>st' c'. k st' ((n, fst st, fst st') # c'))"
| "rx_match Eos st c k = (if snd st = [] then k st c else None)"
  by pat_completeness auto
termination
  by (relation "measures [\<lambda>(r, st, c, k). size r, \<lambda>(r, st, c, k). length (snd st)]") auto

text \<open>\<open>x+\<close> of a character class, and the sequence of a list of expressions.\<close>

definition Some1 :: "cls \<Rightarrow> rx" where
  "Some1 x = Seq (Cl x) (Many x)"

fun seqs :: "rx list \<Rightarrow> rx" where
  "seqs [] = Lit []"
| "seqs [r] = r"
| "seqs (r # rs) = Seq r (seqs rs)"

fun alts :: "rx list \<Rightarrow> rx" where
  "alts [] = Cl (COneOf [])"
| "alts [r] = r"
| "alts (r # rs) = Alt r (alts rs)"

text \<open>
  A match: where it starts, where it ends, its captures and the input left after it.
  \<open>match_here\<close> tries one start position (an expression anchored by \<open>^\<close> can match at
  position 0 only); \<open>search\<close> is \<open>RegExp.prototype.exec\<close>: the leftmost start position
  at which the expression matches.
\<close>

type_synonym rmatch = "nat \<times> nat \<times> caps \<times> string"

definition match_here :: "rx \<Rightarrow> mstate \<Rightarrow> rmatch option" where
  "match_here r st = rx_match r st [] (\<lambda>st' c. Some (fst st, fst st', c, snd st'))"

fun search :: "rx \<Rightarrow> mstate \<Rightarrow> rmatch option" where
  "search r (i, s) =
     (case match_here r (i, s) of
        Some mt \<Rightarrow> Some mt
      | None \<Rightarrow> (case s of [] \<Rightarrow> None | _ # t \<Rightarrow> search r (Suc i, t)))"

text \<open>
  \<open>matchAll\<close> with the \<open>g\<close> flag: the next search starts where the last match ended, one
  code unit further after an empty match. The test on the lengths always holds (what is
  left after a match is a suffix of the input); it is what makes the recursion
  terminate.
\<close>

function matchAll :: "rx \<Rightarrow> mstate \<Rightarrow> rmatch list" where
  "matchAll r (i, s) =
     (case search r (i, s) of
        None \<Rightarrow> []
      | Some (b, e, c, rest) \<Rightarrow>
          (b, e, c, rest) #
          (if b < e then (if length rest < length s then matchAll r (e, rest) else [])
           else (case rest of [] \<Rightarrow> []
                 | _ # t \<Rightarrow> if length t < length s then matchAll r (Suc e, t) else [])))"
  by pat_completeness auto
termination
  by (relation "measure (\<lambda>(r, st). length (snd st))") auto

declare matchAll.simps [simp del]

definition substr :: "string \<Rightarrow> nat \<Rightarrow> nat \<Rightarrow> string" where
  "substr s i j = take (j - i) (drop i s)"

text \<open>The text of the whole match and of a capture group (\<open>None\<close> is \<open>undefined\<close>).\<close>

definition match0 :: "string \<Rightarrow> rmatch \<Rightarrow> string" where
  "match0 s mt = (case mt of (b, e, c, rest) \<Rightarrow> substr s b e)"

definition grp :: "string \<Rightarrow> rmatch \<Rightarrow> nat \<Rightarrow> string option" where
  "grp s mt n = (case mt of (b, e, c, rest) \<Rightarrow>
                   (case map_of c n of None \<Rightarrow> None | Some (i, j) \<Rightarrow> Some (substr s i j)))"

text \<open>\<open>s.replace(/^.../, '')\<close> for an expression anchored at the start, without \<open>g\<close>.\<close>

definition strip_prefix_rx :: "rx \<Rightarrow> string \<Rightarrow> string" where
  "strip_prefix_rx r s =
     (case match_here r (0, s) of None \<Rightarrow> s | Some (b, e, c, rest) \<Rightarrow> rest)"

section \<open>JSON values and \<open>JSON.parse\<close>\<close>

text \<open>
  The values that \<open>JSON.parse\<close> returns. A number keeps the text of its token: the double
  that JavaScript rounds it to is not modelled. An object is the list of its own
  properties in the order of their creation; a repeated key keeps its place and takes
  the last value. (The order in which JavaScript enumerates keys that look like array
  indices is not modelled; nothing here depends on it.) \<open>None\<close> of
  \<^typ>\<open>'a option\<close> stands for \<open>undefined\<close> where a property is read.
\<close>

datatype json =
    JNull | JBool bool | JNumber string | JString string
  | JArray "json list" | JObject "(string \<times> json) list"

datatype js_error = SyntaxError | TypeError

type_synonym 'a res = "js_error + 'a"

datatype token =
    TLBrace | TRBrace | TLBrack | TRBrack | TColon | TComma
  | TStr string | TNum string | TTrue | TFalse | TNull

datatype lmode = LTop | LStr string | LNum string

definition json_ws :: "char \<Rightarrow> bool" where
  "json_ws c = (c \<in> set [CHR 0x20, CHR 0x09, CHR 0x0A, CHR 0x0D])"

definition punct :: "char \<Rightarrow> token option" where
  "punct = map_of [(CHR ''{'', TLBrace), (CHR ''}'', TRBrace), (CHR ''['', TLBrack),
                   (CHR '']'', TRBrack), (CHR '':'', TColon), (CHR '','', TComma)]"

definition escapes :: "char \<Rightarrow> char option" where
  "escapes = map_of [(CHR 0x22, CHR 0x22), (CHR 0x5C, CHR 0x5C), (CHR ''/'', CHR ''/''),
                     (CHR ''b'', CHR 0x08), (CHR ''f'', CHR 0x0C), (CHR ''n'', CHR 0x0A),
                     (CHR ''r'', CHR 0x0D), (CHR ''t'', CHR 0x09)]"

definition hexval :: "char \<Rightarrow> nat option" where
  "hexval = map_of (zip ''0123456789abcdefABCDEF''
                        [0, 1, 2, 3, 4, 5, 6, 7, 8, 9, 10, 11, 12, 13, 14, 15, 10, 11, 12, 13, 14, 15])"

text \<open>
  The four hexadecimal digits of a \<open>\u\<close> escape. An escape above \<open>\u00FF\<close> names a code
  unit outside the 8-bit alphabet of this model and is reported as a syntax error.
\<close>

definition hex4 :: "string \<Rightarrow> char option" where
  "hex4 ds =
     (case map hexval ds of
        [Some a, Some b, Some c, Some d] \<Rightarrow>
          (if a = 0 \<and> b = 0 then Some (char_of (16 * c + d)) else None)
      | _ \<Rightarrow> None)"

text \<open>The number grammar: \<open>-?(0|[1-9]\d*)(\.\d+)?([eE][+-]?\d+)?\<close>.\<close>

definition number_rx :: rx where
  "number_rx =
     seqs [Opt (Lit ''-''),
           Alt (Lit ''0'') (Seq (Cl (COneOf ''123456789'')) (Many CDigit)),
           Opt (Seq (Lit ''.'') (Some1 CDigit)),
           Opt (seqs [Cl (COneOf ''eE''), Opt (Cl (COneOf ''+-'')), Some1 CDigit]),
           Eos]"

definition valid_number :: "string \<Rightarrow> bool" where
  "valid_number s = (match_here number_rx (0, s) \<noteq> None)"

text \<open>
  The lexer. A number token is the longest run of the characters a number can contain,
  checked against the grammar; it must be followed by white space, by a punctuator or
  by the end of the text, as in every JSON text.
\<close>

fun lex :: "lmode \<Rightarrow> token list \<Rightarrow> string \<Rightarrow> token list option" where
  "lex LTop acc [] = Some (rev acc)"
| "lex LTop acc (c # cs) =
     (if json_ws c then lex LTop acc cs
      else (case punct c of
              Some t \<Rightarrow> lex LTop (t # acc) cs
            | None \<Rightarrow>
                if c = CHR 0x22 then lex (LStr []) acc cs
                else if c \<in> set ''-0123456789'' then lex (LNum [c]) acc cs
                else if startsWith (c # cs) ''true'' then lex LTop (TTrue # acc) (drop 3 cs)
                else if startsWith (c # cs) ''false'' then lex LTop (TFalse # acc) (drop 4 cs)
                else if startsWith (c # cs) ''null'' then lex LTop (TNull # acc) (drop 3 cs)
                else None))"
| "lex (LStr a) acc [] = None"
| "lex (LStr a) acc (c # cs) =
     (if c = CHR 0x22 then lex LTop (TStr (rev a) # acc) cs
      else if c = CHR 0x5C then
        (case cs of
           [] \<Rightarrow> None
         | e # cs' \<Rightarrow>
             if e = CHR ''u''
             then (case hex4 (take 4 cs') of
                     None \<Rightarrow> None
                   | Some ch \<Rightarrow> lex (LStr (ch # a)) acc (drop 4 cs'))
             else (case escapes e of
                     None \<Rightarrow> None
                   | Some ch \<Rightarrow> lex (LStr (ch # a)) acc cs'))
      else if (of_char c :: nat) < 32 then None
      else lex (LStr (c # a)) acc cs)"
| "lex (LNum a) acc [] =
     (if valid_number (rev a) then Some (rev (TNum (rev a) # acc)) else None)"
| "lex (LNum a) acc (c # cs) =
     (if c \<in> set ''0123456789+-.eE'' then lex (LNum (c # a)) acc cs
      else if valid_number (rev a)
      then (if json_ws c then lex LTop (TNum (rev a) # acc) cs
            else (case punct c of
                    Some t \<Rightarrow> lex LTop (t # TNum (rev a) # acc) cs
                  | None \<Rightarrow> None))
      else None)"

text \<open>
  The parser: a stack of the arrays and objects that are open. \<open>parse_value\<close> reads a
  value; \<open>attach\<close> adds a finished value to the innermost open array or object, or
  returns it when none is open and the text ends there.
\<close>

datatype frame = FArr "json list" | FObj "(string \<times> json) list" string

definition scalar :: "token \<Rightarrow> json option" where
  "scalar t = (case t of TStr s \<Rightarrow> Some (JString s) | TNum n \<Rightarrow> Some (JNumber n)
                 | TTrue \<Rightarrow> Some (JBool True) | TFalse \<Rightarrow> Some (JBool False)
                 | TNull \<Rightarrow> Some JNull | _ \<Rightarrow> None)"

definition startsWithT :: "token list \<Rightarrow> token \<Rightarrow> bool" where
  "startsWithT ts t = (case ts of [] \<Rightarrow> False | t' # _ \<Rightarrow> t' = t)"

definition key_of :: "token list \<Rightarrow> string option" where
  "key_of ts = (case ts of TStr k # t # _ \<Rightarrow> if t = TColon then Some k else None | _ \<Rightarrow> None)"

fun parse_value :: "token list \<Rightarrow> frame list \<Rightarrow> json option"
  and attach :: "json \<Rightarrow> token list \<Rightarrow> frame list \<Rightarrow> json option" where
  "parse_value [] stk = None"
| "parse_value (t # ts) stk =
     (if t = TLBrack
      then (if startsWithT ts TRBrack then attach (JArray []) (drop 1 ts) stk
            else parse_value ts (FArr [] # stk))
      else if t = TLBrace
      then (if startsWithT ts TRBrace then attach (JObject []) (drop 1 ts) stk
            else (case key_of ts of
                    None \<Rightarrow> None
                  | Some k \<Rightarrow> parse_value (drop 2 ts) (FObj [] k # stk)))
      else (case scalar t of None \<Rightarrow> None | Some v \<Rightarrow> attach v ts stk))"
| "attach v ts [] = (if ts = [] then Some v else None)"
| "attach v [] (f # stk) = None"
| "attach v (t # ts) (FArr xs # stk) =
     (if t = TComma then parse_value ts (FArr (xs @ [v]) # stk)
      else if t = TRBrack then attach (JArray (xs @ [v])) ts stk
      else None)"
| "attach v (t # ts) (FObj ps k # stk) =
     (if t = TComma
      then (case key_of ts of
              None \<Rightarrow> None
            | Some k' \<Rightarrow> parse_value (drop 2 ts) (FObj (AList.update k v ps) k' # stk))
      else if t = TRBrace then attach (JObject (AList.update k v ps)) ts stk
      else None)"

definition JSON_parse :: "string \<Rightarrow> json res" where
  "JSON_parse s =
     (case lex LTop [] s of
        None \<Rightarrow> Inl SyntaxError
      | Some ts \<Rightarrow> (case parse_value ts [] of None \<Rightarrow> Inl SyntaxError | Some v \<Rightarrow> Inr v))"

section \<open>JavaScript values\<close>

text \<open>
  Truthiness. A number is falsy when the double that JavaScript reads its token as is
  zero. The token denotes \<open>m * 10^e\<close>, where \<open>m\<close> is the number that the digits of the
  integer part and of the fraction spell and \<open>e\<close> is the exponent less the number of
  digits of the fraction. Rounding is to the nearest double, ties to even, and the
  smallest positive double is \<open>2^-1074\<close>: the token is read as zero when
  \<open>m * 10^e \<le> 2^-1075\<close>. (For a token of more than 20 significant digits the
  language specification also lets an engine round the digits first; the model rounds
  the exact value.)
\<close>

fun digits_val :: "string \<Rightarrow> int \<Rightarrow> int" where
  "digits_val [] n = n"
| "digits_val (c # cs) n = digits_val cs (10 * n + (of_char c - 48))"

definition zero_number :: "string \<Rightarrow> bool" where
  "zero_number t =
     (let mantissa = takeWhile (\<lambda>c. c \<notin> set ''eE'') t;
          exponent = drop 1 (dropWhile (\<lambda>c. c \<notin> set ''eE'') t);
          fraction = drop 1 (dropWhile (\<lambda>c. c \<noteq> CHR ''.'') mantissa);
          m = digits_val (filter (in_cls CDigit) mantissa) 0;
          x = digits_val (filter (in_cls CDigit) exponent) 0;
          e = (if startsWith exponent ''-'' then - x else x) - int (length fraction)
      in m = 0 \<or> (e < 0 \<and> m * 2 ^ 1075 \<le> 10 ^ nat (- e)))"

definition truthy :: "json \<Rightarrow> bool" where
  "truthy v = (case v of JNull \<Rightarrow> False | JBool b \<Rightarrow> b | JNumber t \<Rightarrow> \<not> zero_number t
                 | JString s \<Rightarrow> s \<noteq> [] | JArray xs \<Rightarrow> True | JObject ps \<Rightarrow> True)"

definition truthy_opt :: "json option \<Rightarrow> bool" where
  "truthy_opt v = (case v of None \<Rightarrow> False | Some j \<Rightarrow> truthy j)"

text \<open>
  Reading one of the properties the source reads (\<open>type\<close>, \<open>name\<close>, \<open>value\<close>, \<open>key\<close>,
  \<open>text\<close>, \<open>call_id\<close>): a \<open>TypeError\<close> on \<open>null\<close>, the own property of an object, and
  \<open>undefined\<close> on every other value.
\<close>

definition get :: "json \<Rightarrow> string \<Rightarrow> json option res" where
  "get v k = (case v of JNull \<Rightarrow> Inl TypeError | JObject ps \<Rightarrow> Inr (map_of ps k)
                | _ \<Rightarrow> Inr None)"

text \<open>
  \<open>ToString\<close>, which \<open>v.toString()\<close> and the conversion of a property key come to on
  these values. An object with an own property \<open>toString\<close> (never callable in a parsed
  value) has no usable conversion: a \<open>TypeError\<close>. An array joins its elements with
  commas, \<open>null\<close> elements as the empty string. A number is printed as its token.
\<close>

fun js_toString :: "json \<Rightarrow> string res"
  and join_elems :: "json list \<Rightarrow> string res" where
  "js_toString JNull = Inr ''null''"
| "js_toString (JBool b) = Inr (if b then ''true'' else ''false'')"
| "js_toString (JNumber t) = Inr t"
| "js_toString (JString s) = Inr s"
| "js_toString (JArray xs) = join_elems xs"
| "js_toString (JObject ps) =
     (if map_of ps ''toString'' = None then Inr ''[object Object]'' else Inl TypeError)"
| "join_elems [] = Inr []"
| "join_elems (x # xs) =
     (case (if x = JNull then Inr [] else js_toString x) of
        Inl e \<Rightarrow> Inl e
      | Inr a \<Rightarrow>
          (if xs = [] then Inr a
           else (case join_elems xs of Inl e \<Rightarrow> Inl e | Inr b \<Rightarrow> Inr (a @ '','' @ b))))"

text \<open>
  \<open>obj[k] = v\<close> on an object made by the literal \<open>{}\<close>, as the list of its own
  properties: the key \<open>__proto__\<close> reaches the setter of \<open>Object.prototype\<close> and
  creates no own property.
\<close>

definition assign :: "(string \<times> json) list \<Rightarrow> string \<Rightarrow> json \<Rightarrow> (string \<times> json) list" where
  "assign ps k v = (if k = ''__proto__'' then ps else AList.update k v ps)"

section \<open>\<open>ToolCallParser\<close> (tool-parser.ts)\<close>

text \<open>
  The class as tool-parser.ts has it. The copy of the class in mcp-modal.ts has
  the same \<open>parseMessage\<close> and \<open>parseJSONFormat\<close>; its XML matcher takes complete
  invocations only.
\<close>

datatype fmt = Fxml | Fjson

record DetectedToolCall =
  tc_id :: string
  toolName :: json
  arguments :: "(string \<times> json) list"
  rawText :: string
  format :: fmt

record ToolCallParser =
  idCounter :: nat

text \<open>
  \<open>Date.now()\<close> is an input of the model: \<open>clock n\<close> is what it returns in the call of
  \<open>generateId\<close> that finds the counter at \<open>n\<close>. The counter is a double: \<open>idCounter++\<close>
  adds one up to \<open>2^53\<close>, and leaves the counter at \<open>2^53\<close>, where the sum
  \<open>2^53 + 1\<close> rounds back to \<open>2^53\<close>. The template literal prints the decimal
  digits of both numbers, as it does of every integer below \<open>10^21\<close>; what \<open>Date.now()\<close>
  returns is below \<open>8.64 * 10^15\<close>.
\<close>

type_synonym clock = "nat \<Rightarrow> nat"

definition increment :: "nat \<Rightarrow> nat" where
  "increment n = (if int n < 2 ^ 53 then Suc n else n)"

definition generateId :: "clock \<Rightarrow> ToolCallParser \<Rightarrow> string \<times> ToolCallParser" where
  "generateId clock p =
     (''tool-call-'' @ dec (clock (idCounter p)) @ ''-'' @ dec (idCounter p),
      p\<lparr>idCounter := increment (idCounter p)\<rparr>)"

definition parseValue :: "string \<Rightarrow> json res" where
  "parseValue v = (case JSON_parse v of Inl e \<Rightarrow> Inr (JString v) | Inr j \<Rightarrow> Inr j)"

definition functionCallsRegex :: rx where
  "functionCallsRegex = seqs [Lit ''<function_calls>'', Grp 1 (ManyL CAny), Lit ''</function_calls>'']"

definition incompleteFunctionCallsRegex :: rx where
  "incompleteFunctionCallsRegex = seqs [Lit ''<function_calls>'', Grp 1 (ManyL CAny), Eos]"

definition invokeRegex :: rx where
  "invokeRegex =
     seqs [Lit ''<invoke'', Some1 CSpace, Lit ''name=\"'', Grp 1 (Some1 (CNoneOf ''\"'')), Lit ''\"'',
           Opt (seqs [Some1 CSpace, Lit ''call_id=\"'', Grp 2 (Some1 (CNoneOf ''\"'')), Lit ''\"'']),
           ManyL (CNoneOf ''>''), Lit ''>'', Grp 3 (ManyL CAny), Alt (Lit ''</invoke>'') Eos]"

definition parameterRegex :: rx where
  "parameterRegex =
     seqs [Lit ''<parameter'', Some1 CSpace, Lit ''name=\"'', Grp 1 (Some1 (CNoneOf ''\"'')), Lit ''\">'',
           Grp 2 (ManyL CAny), Alt (Lit ''</parameter>'') Eos]"

text \<open>\<open>/^<!\[CDATA\[([\s\S]*?)\]\]>$/\<close>, matched at the start of the value.\<close>

definition cdataRegex :: rx where
  "cdataRegex = seqs [Lit ''<![CDATA['', Grp 1 (ManyL CAny), Lit '']]>'', Eos]"

definition cdata :: "string \<Rightarrow> string" where
  "cdata paramValue =
     (case match_here cdataRegex (0, paramValue) of
        None \<Rightarrow> paramValue
      | Some mt \<Rightarrow> (case grp paramValue mt 1 of None \<Rightarrow> paramValue | Some inner \<Rightarrow> trim inner))"

text \<open>
  The loop over \<open>paramMatches\<close>. The groups it reads take part in every match of
  \<open>parameterRegex\<close>. A group that took no part would read as \<open>undefined\<close>, on which
  \<open>trim\<close> throws: the model gives a \<open>TypeError\<close> to that case, here and in the loops
  below, and the proofs show that it does not arise.
\<close>

fun param_loop :: "string \<Rightarrow> rmatch list \<Rightarrow> (string \<times> json) list \<Rightarrow> (string \<times> json) list res" where
  "param_loop content [] args = Inr args"
| "param_loop content (mt # ms) args =
     (case grp content mt 1 of
        None \<Rightarrow> Inl TypeError
      | Some paramName \<Rightarrow>
          (case grp content mt 2 of
             None \<Rightarrow> Inl TypeError
           | Some raw \<Rightarrow>
               (case parseValue (cdata (trim raw)) of
                  Inl e \<Rightarrow> Inl e
                | Inr v \<Rightarrow> param_loop content ms (assign args paramName v))))"

type_synonym pstate = "DetectedToolCall list \<times> ToolCallParser"

text \<open>The loop over \<open>invokeMatches\<close>; \<open>invokeMatch[2] || this.generateId()\<close>.\<close>

definition callId_of :: "clock \<Rightarrow> string option \<Rightarrow> ToolCallParser \<Rightarrow> string \<times> ToolCallParser" where
  "callId_of clock g p =
     (case g of None \<Rightarrow> generateId clock p
      | Some i \<Rightarrow> if i = [] then generateId clock p else (i, p))"

fun invoke_loop :: "clock \<Rightarrow> string \<Rightarrow> rmatch list \<Rightarrow> pstate \<Rightarrow> pstate res" where
  "invoke_loop clock content [] st = Inr st"
| "invoke_loop clock content (mt # ms) (calls, p) =
     (case grp content mt 1 of
        None \<Rightarrow> Inl TypeError
      | Some name \<Rightarrow>
          (case callId_of clock (grp content mt 2) p of
             (callId, p') \<Rightarrow>
               (case grp content mt 3 of
                  None \<Rightarrow> Inl TypeError
                | Some parametersContent \<Rightarrow>
                    (case param_loop parametersContent
                            (matchAll parameterRegex (0, parametersContent)) [] of
                       Inl e \<Rightarrow> Inl e
                     | Inr args \<Rightarrow>
                         invoke_loop clock content ms
                           (calls @ [\<lparr>tc_id = callId, toolName = JString name, arguments = args,
                                      rawText = match0 content mt, format = Fxml\<rparr>], p')))))"

definition parseInvokeBlocks :: "clock \<Rightarrow> string \<Rightarrow> pstate \<Rightarrow> pstate res" where
  "parseInvokeBlocks clock content st = invoke_loop clock content (matchAll invokeRegex (0, content)) st"

fun complete_loop :: "clock \<Rightarrow> string \<Rightarrow> rmatch list \<Rightarrow> pstate \<Rightarrow> pstate res" where
  "complete_loop clock text [] st = Inr st"
| "complete_loop clock text (mt # ms) st =
     (case grp text mt 1 of
        None \<Rightarrow> Inl TypeError
      | Some functionCallsContent \<Rightarrow>
          (case parseInvokeBlocks clock functionCallsContent st of
             Inl e \<Rightarrow> Inl e
           | Inr st' \<Rightarrow> complete_loop clock text ms st'))"

definition parseXMLFormat :: "clock \<Rightarrow> ToolCallParser \<Rightarrow> string \<Rightarrow> pstate res" where
  "parseXMLFormat clock p text =
     (let completeMatches = matchAll functionCallsRegex (0, text)
      in if completeMatches \<noteq> [] then complete_loop clock text completeMatches ([], p)
         else (case search incompleteFunctionCallsRegex (0, text) of
                 None \<Rightarrow> Inr ([], p)
               | Some incompleteMatch \<Rightarrow>
                   (case grp text incompleteMatch 1 of
                      None \<Rightarrow> Inl TypeError
                    | Some functionCallsContent \<Rightarrow>
                        parseInvokeBlocks clock functionCallsContent ([], p))))"

text \<open>
  \<open>parseJSONFormat\<close>. The state of its loop: \<open>toolCalls\<close>, \<open>currentCall\<close> (\<open>None\<close> is
  \<open>null\<close>) and the parser. \<open>json_try\<close> is the body of the \<open>try\<close> for one trimmed line;
  \<open>json_lines\<close> is the loop, whose \<open>catch\<close> leaves the state as it was (the body changes
  nothing before the last point where it can throw). The model reads \<open>type\<close>, \<open>name\<close> and
  \<open>value\<close> before the tests that the source reads them in; reading them changes nothing,
  and it throws for all of them or for none.
\<close>

type_synonym jstate = "DetectedToolCall list \<times> DetectedToolCall option \<times> ToolCallParser"

definition json_try :: "clock \<Rightarrow> string \<Rightarrow> jstate \<Rightarrow> jstate res" where
  "json_try clock trimmed st =
     (case st of (toolCalls, currentCall, p) \<Rightarrow>
      (case JSON_parse trimmed of
         Inl e \<Rightarrow> Inl e
       | Inr json \<Rightarrow>
           (case get json ''type'' of
              Inl e \<Rightarrow> Inl e
            | Inr ty \<Rightarrow>
                (case get json ''name'' of
                   Inl e \<Rightarrow> Inl e
                 | Inr name \<Rightarrow>
                     (case get json ''value'' of
                        Inl e \<Rightarrow> Inl e
                      | Inr val \<Rightarrow>
                          if ty = Some (JString ''function_call_start'') \<and> truthy_opt name
                          then (case generateId clock p of
                                  (i, p') \<Rightarrow>
                                    Inr (toolCalls,
                                         Some \<lparr>tc_id = i,
                                               toolName = (case name of Some n \<Rightarrow> n | None \<Rightarrow> JNull),
                                               arguments = [], rawText = trimmed, format = Fjson\<rparr>,
                                         p'))
                          else if ty = Some (JString ''function_call_arg'') \<and> currentCall \<noteq> None
                                  \<and> truthy_opt name \<and> val \<noteq> None
                          then (case (currentCall, name, val) of
                                  (Some cur, Some n, Some v) \<Rightarrow>
                                    (case js_toString n of
                                       Inl e \<Rightarrow> Inl e
                                     | Inr k \<Rightarrow>
                                         Inr (toolCalls,
                                              Some (cur\<lparr>arguments := assign (arguments cur) k v,
                                                        rawText := rawText cur @ [CHR 0x0A] @ trimmed\<rparr>),
                                              p))
                                | _ \<Rightarrow> Inr st)
                          else if ty = Some (JString ''function_call_end'') \<and> currentCall \<noteq> None
                          then (case currentCall of
                                  Some cur \<Rightarrow>
                                    Inr (toolCalls @ [cur\<lparr>rawText := rawText cur @ [CHR 0x0A] @ trimmed\<rparr>],
                                         None, p)
                                | None \<Rightarrow> Inr st)
                          else Inr st)))))"

fun json_lines :: "clock \<Rightarrow> string list \<Rightarrow> jstate \<Rightarrow> jstate" where
  "json_lines clock [] st = st"
| "json_lines clock (line # ls) st =
     (let trimmed = trim line
      in if startsWith trimmed ''{''
         then json_lines clock ls (case json_try clock trimmed st of Inl e \<Rightarrow> st | Inr st' \<Rightarrow> st')
         else json_lines clock ls st)"

definition parseJSONFormat :: "clock \<Rightarrow> ToolCallParser \<Rightarrow> string \<Rightarrow> pstate res" where
  "parseJSONFormat clock p text =
     (case json_lines clock (split_nl text) ([], None, p) of
        (toolCalls, currentCall, p') \<Rightarrow>
          Inr (toolCalls @
               (case currentCall of
                  None \<Rightarrow> []
                | Some cur \<Rightarrow> if truthy (toolName cur) then [cur] else []),
               p'))"

definition parseMessage :: "clock \<Rightarrow> ToolCallParser \<Rightarrow> string \<Rightarrow> pstate res" where
  "parseMessage clock p text =
     (case parseXMLFormat clock p text of
        Inl e \<Rightarrow> Inl e
      | Inr (xmlCalls, p1) \<Rightarrow>
          if xmlCalls = []
          then (case parseJSONFormat clock p1 text of
                  Inl e \<Rightarrow> Inl e
                | Inr (jsonCalls, p2) \<Rightarrow> Inr (xmlCalls @ jsonCalls, p2))
          else Inr (xmlCalls, p1))"

section \<open>The JSON function-call parser (jsonFunctionParser.ts)\<close>

definition languages :: "string list" where
  "languages =
     [''javascript'', ''typescript'', ''markdown'', ''csharp'', ''kotlin'', ''python'', ''jsonl'',
      ''bash'', ''rust'', ''java'', ''scala'', ''swift'', ''shell'', ''json'', ''text'', ''perl'',
      ''yaml'', ''toml'', ''html'', ''ruby'', ''cpp'', ''php'', ''lua'', ''css'', ''sql'', ''yml'',
      ''ini'', ''xml'', ''ts'', ''js'', ''py'', ''sh'', ''md'', ''cs'', ''go'', ''rb'', ''c'', ''r'']"

definition lang_rx :: rx where
  "lang_rx = alts (map LitI languages)"

text \<open>The three expressions of \<open>stripLanguageTags\<close>, each anchored at the start.\<close>

definition fence_rx :: rx where
  "fence_rx = seqs [Lit ''```'', Many CSpace, Opt lang_rx, Many CSpace]"

definition tag_rx :: rx where
  "tag_rx =
     seqs [lang_rx,
           Opt (seqs [Many CSpace, LitI ''copy'', Opt (Seq (Many CSpace) (LitI ''code''))]),
           Many CSpace]"

definition copy_rx :: rx where
  "copy_rx = seqs [LitI ''c'', LitI ''opy'', Opt (Seq (Some1 CSpace) (LitI ''code'')), Many CSpace]"

definition stripLanguageTags :: "string \<Rightarrow> string" where
  "stripLanguageTags line =
     strip_prefix_rx copy_rx (strip_prefix_rx tag_rx (strip_prefix_rx fence_rx (trim line)))"

text \<open>
  \<open>parseJSONLine\<close>: \<open>parseJSONLine_try\<close> is the body of its \<open>try\<close>, and the \<open>catch\<close>
  returns \<open>null\<close> (\<open>None\<close>). A line is returned when it parses to a value whose \<open>type\<close>
  is a non-empty string.
\<close>

definition parseJSONLine_try :: "string \<Rightarrow> json option res" where
  "parseJSONLine_try line =
     (let trimmed = trim line
      in if trimmed = [] then Inr None
         else (let cleaned = stripLanguageTags trimmed
               in if cleaned = [] then Inr None
                  else (case JSON_parse cleaned of
                          Inl e \<Rightarrow> Inl e
                        | Inr parsed \<Rightarrow>
                            (case get parsed ''type'' of
                               Inl e \<Rightarrow> Inl e
                             | Inr ty \<Rightarrow>
                                 (case ty of
                                    Some (JString t) \<Rightarrow> if t = [] then Inr None else Inr (Some parsed)
                                  | _ \<Rightarrow> Inr None)))))"

definition parseJSONLine :: "string \<Rightarrow> json option res" where
  "parseJSONLine line = (case parseJSONLine_try line of Inl e \<Rightarrow> Inr None | Inr r \<Rightarrow> Inr r)"

text \<open>\<open>reconstructJSONObjects\<close>: the pretty-printed objects, one per line again.\<close>

fun count_braces :: "string \<Rightarrow> int \<times> bool \<Rightarrow> int \<times> bool" where
  "count_braces [] st = st"
| "count_braces (ch # cs) (braceDepth, inObject) =
     (if ch = CHR ''{'' then count_braces cs (braceDepth + 1, True)
      else if ch = CHR ''}'' then count_braces cs (braceDepth - 1, inObject)
      else count_braces cs (braceDepth, inObject))"

fun reconstruct_loop :: "string list \<Rightarrow> string list \<times> string \<times> int \<times> bool \<Rightarrow> string list" where
  "reconstruct_loop [] (reconstructed, currentObject, braceDepth, inObject) =
     (if trim currentObject = [] then reconstructed else reconstructed @ [currentObject])"
| "reconstruct_loop (line # ls) (reconstructed, currentObject, braceDepth, inObject) =
     (let trimmed = trim line
      in if trimmed = [] then reconstruct_loop ls (reconstructed, currentObject, braceDepth, inObject)
         else (case count_braces trimmed (braceDepth, inObject) of
                 (d, io) \<Rightarrow>
                   (let cur = currentObject @ (if currentObject = [] then [] else '' '') @ trimmed
                    in if io \<and> d = 0 then reconstruct_loop ls (reconstructed @ [cur], [], d, False)
                       else reconstruct_loop ls (reconstructed, cur, d, io))))"

definition reconstructJSONObjects :: "string list \<Rightarrow> string list" where
  "reconstructJSONObjects lines = reconstruct_loop lines ([], [], 0, False)"

text \<open>
  \<open>s.split(r)\<close> for an expression that cannot match the empty string: the pieces
  between the matches.
\<close>

fun pieces :: "string \<Rightarrow> nat \<Rightarrow> rmatch list \<Rightarrow> string list" where
  "pieces s p [] = [drop p s]"
| "pieces s p ((b, e, c, rest) # ms) = substr s p b # pieces s e ms"

definition split_rx :: "rx \<Rightarrow> string \<Rightarrow> string list" where
  "split_rx r s = pieces s 0 (matchAll r (0, s))"

record block =
  textContent :: string
  codeChild :: "string option"

record FunctionInfo =
  hasFunctionCalls :: bool
  isComplete :: bool
  hasInvoke :: bool
  hasParameters :: bool
  hasClosingTags :: bool
  languageTag :: "string option"
  detectedBlockType :: "string option"
  partialTagDetected :: bool
  invokeName :: "json option"
  callId :: "string option"
  fi_textContent :: "json option"
  description :: "json option"

definition no_function_info :: FunctionInfo where
  "no_function_info =
     \<lparr>hasFunctionCalls = False, isComplete = False, hasInvoke = False, hasParameters = False,
      hasClosingTags = False, languageTag = None, detectedBlockType = None,
      partialTagDetected = False, invokeName = None, callId = None, fi_textContent = None,
      description = None\<rparr>"

record JSONFunctionState =
  hasFunctionStart :: bool
  hasFunctionEnd :: bool
  functionName :: "json option"
  st_callId :: "string option"
  st_description :: "json option"
  parameterCount :: nat

text \<open>\<open>v || null\<close> and \<open>v?.toString() || null\<close>, with \<open>None\<close> for \<open>null\<close>.\<close>

definition or_null :: "json option \<Rightarrow> json option" where
  "or_null v = (if truthy_opt v then v else None)"

definition toString_or_null :: "json option \<Rightarrow> string option res" where
  "toString_or_null v =
     (case v of
        None \<Rightarrow> Inr None
      | Some j \<Rightarrow>
          if j = JNull then Inr None
          else (case js_toString j of
                  Inl e \<Rightarrow> Inl e
                | Inr s \<Rightarrow> if s = [] then Inr None else Inr (Some s)))"

text \<open>The own property \<open>k\<close> of a value that \<open>parseJSONLine\<close> returned.\<close>

definition own_prop :: "json \<Rightarrow> string \<Rightarrow> json option" where
  "own_prop v k = (case v of JObject ps \<Rightarrow> map_of ps k | _ \<Rightarrow> None)"

definition singleLine_rx :: rx where
  "singleLine_rx = seqs [Lit ''}'', Many CSpace, Lit ''{'']"

definition function_call_rx :: rx where
  "function_call_rx = seqs [Lit ''function_call_'', Many CWord]"

definition reattach :: "string list \<Rightarrow> string list" where
  "reattach parts =
     map (\<lambda>(index, part).
            if index = 0 then part @ ''}''
            else if index = length parts - 1 then ''{'' @ part
            else ''{'' @ part @ ''}'')
         (zip [0 ..< length parts] parts)"

text \<open>The loop over the lines, with \<open>hasPartialJSON\<close> beside the state.\<close>

fun json_info_loop :: "string list \<Rightarrow> JSONFunctionState \<times> bool \<Rightarrow> (JSONFunctionState \<times> bool) res" where
  "json_info_loop [] acc = Inr acc"
| "json_info_loop (line # ls) (state, hasPartialJSON) =
     (case parseJSONLine line of
        Inl e \<Rightarrow> Inl e
      | Inr None \<Rightarrow>
          (let trimmed = trim line
           in json_info_loop ls
                (state, if startsWith trimmed ''{'' \<and> \<not> endsWith trimmed ''}'' then True
                        else hasPartialJSON))
      | Inr (Some parsed) \<Rightarrow>
          (let ty = own_prop parsed ''type''
           in if ty = Some (JString ''function_call_start'')
              then (case toString_or_null (own_prop parsed ''call_id'') of
                      Inl e \<Rightarrow> Inl e
                    | Inr cid \<Rightarrow>
                        json_info_loop ls
                          (state\<lparr>hasFunctionStart := True,
                                 functionName := or_null (own_prop parsed ''name''),
                                 st_callId := cid\<rparr>, hasPartialJSON))
              else if ty = Some (JString ''description'')
              then json_info_loop ls
                     (state\<lparr>st_description := or_null (own_prop parsed ''text'')\<rparr>, hasPartialJSON)
              else if ty = Some (JString ''parameter'')
              then json_info_loop ls
                     (state\<lparr>parameterCount := Suc (parameterCount state)\<rparr>, hasPartialJSON)
              else if ty = Some (JString ''function_call_end'')
              then json_info_loop ls (state\<lparr>hasFunctionEnd := True\<rparr>, hasPartialJSON)
              else json_info_loop ls (state, hasPartialJSON)))"

text \<open>
  \<open>containsJSONFunctionCalls\<close>, in the order of the source: the content of the block
  (that of its first \<open>code\<close> descendant when it has one with text), the quick check,
  the lines to parse, the loop, and the result.
\<close>

definition block_content :: "block \<Rightarrow> string" where
  "block_content b =
     (case codeChild b of
        None \<Rightarrow> trim (textContent b)
      | Some t \<Rightarrow> if t = [] then trim (textContent b) else trim t)"

definition looksLikeJSONStart :: "string \<Rightarrow> bool" where
  "looksLikeJSONStart content =
     (str_includes content ''{\"type\"'' \<or> str_includes content ''{ \"type\"'')"

definition quick_check :: "string \<Rightarrow> bool" where
  "quick_check content =
     (let hasTypeField = (str_includes content ''\"type\"''
                          \<or> str_includes content ([CHR 0x27] @ ''type'' @ [CHR 0x27])
                          \<or> str_includes content ''type:'');
          hasFunctionCall = (str_includes content ''function_call''
                             \<or> (str_includes content ''\"type\"''
                                 \<and> search function_call_rx (0, content) \<noteq> None)
                             \<or> (str_includes content ''\"type\"''
                                 \<and> str_includes content ''function_ca''));
          hasParameter = (str_includes content ''\"parameter\"''
                          \<or> str_includes content ([CHR 0x27] @ ''parameter'' @ [CHR 0x27])
                          \<or> str_includes content ''parameter'')
      in hasTypeField \<and> (hasFunctionCall \<or> hasParameter \<or> looksLikeJSONStart content))"

definition json_block_lines :: "string \<Rightarrow> string list" where
  "json_block_lines content =
     (let lines = split_nl content;
          isSingleLineFormat = (length lines = 1 \<and> 1 < length (filter (\<lambda>c. c = CHR ''{'') content));
          isPrettyPrinted = (1 < length lines \<and>
                             (str_includes content (''{'' @ [CHR 0x0A])
                              \<or> str_includes content (''{ '' @ [CHR 0x0A])
                              \<or> list_ex (\<lambda>line. trim line = ''{'') lines))
      in if isSingleLineFormat then reattach (split_rx singleLine_rx content)
         else if isPrettyPrinted then reconstructJSONObjects lines
         else lines)"

definition json_function_info :: "JSONFunctionState \<Rightarrow> bool \<Rightarrow> bool \<Rightarrow> FunctionInfo" where
  "json_function_info state hasPartialJSON looksLike =
     (if hasFunctionStart state \<or> (hasPartialJSON \<and> looksLike)
      then no_function_info
             \<lparr>hasFunctionCalls := True,
              detectedBlockType := Some ''json'',
              hasInvoke := hasFunctionStart state,
              hasParameters := (0 < parameterCount state),
              hasClosingTags := hasFunctionEnd state,
              isComplete := (hasFunctionStart state \<and> hasFunctionEnd state),
              invokeName := functionName state,
              callId := st_callId state,
              fi_textContent := st_description state,
              partialTagDetected := hasPartialJSON\<rparr>
      else no_function_info)"

definition containsJSONFunctionCalls :: "block \<Rightarrow> FunctionInfo res" where
  "containsJSONFunctionCalls b =
     (let content = block_content b
      in if quick_check content
         then (case json_info_loop (json_block_lines content)
                      (\<lparr>hasFunctionStart = False, hasFunctionEnd = False, functionName = None,
                         st_callId = None, st_description = None, parameterCount = 0\<rparr>, False) of
                 Inl e \<Rightarrow> Inl e
               | Inr (state, hasPartialJSON) \<Rightarrow>
                   Inr (json_function_info state hasPartialJSON (looksLikeJSONStart content)))
         else Inr no_function_info)"

text \<open>
  \<open>extractJSONFunctionInfo\<close>: the function name, the call id and the description. The
  loop stops once all three are known, which the source tests after a line that
  parsed. A line that does not parse is searched for a name and a call id.
\<close>

definition name_rx :: rx where
  "name_rx = seqs [Lit ''\"name\"'', Many CSpace, Lit '':'', Many CSpace, Lit ''\"'',
                   Grp 1 (Some1 (CNoneOf ''\"'')), Lit ''\"'']"

definition call_id_rx :: rx where
  "call_id_rx =
     seqs [Lit ''\"call_id\"'', Many CSpace, Lit '':'', Many CSpace,
           Grp 1 (Alt (Some1 CDigit) (seqs [Lit ''\"'', Some1 (CNoneOf ''\"''), Lit ''\"'']))]"

type_synonym info = "json option \<times> string option \<times> json option"

definition partial_info :: "string \<Rightarrow> info \<Rightarrow> info" where
  "partial_info line acc =
     (case acc of (fname, cid, descr) \<Rightarrow>
        (let trimmed = strip_prefix_rx tag_rx (trim line)
         in if startsWith trimmed ''{'' \<and> str_includes trimmed ''\"type\"''
               \<and> str_includes trimmed ''function_call_start''
            then (let fname' = (case search name_rx (0, trimmed) of
                                  None \<Rightarrow> fname
                                | Some mt \<Rightarrow> (case grp trimmed mt 1 of
                                               None \<Rightarrow> fname | Some n \<Rightarrow> Some (JString n)));
                      cid' = (case search call_id_rx (0, trimmed) of
                                None \<Rightarrow> cid
                              | Some mt \<Rightarrow> (case grp trimmed mt 1 of
                                             None \<Rightarrow> cid
                                           | Some i \<Rightarrow> Some (filter (\<lambda>c. c \<noteq> CHR 0x22) i)))
                  in (fname', cid', descr))
            else acc))"

fun info_loop :: "string list \<Rightarrow> info \<Rightarrow> info res" where
  "info_loop [] acc = Inr acc"
| "info_loop (line # ls) (fname, cid, descr) =
     (case parseJSONLine line of
        Inl e \<Rightarrow> Inl e
      | Inr None \<Rightarrow> info_loop ls (partial_info line (fname, cid, descr))
      | Inr (Some parsed) \<Rightarrow>
          (let ty = own_prop parsed ''type''
           in (case (if ty = Some (JString ''function_call_start'')
                     then (case toString_or_null (own_prop parsed ''call_id'') of
                             Inl e \<Rightarrow> Inl e
                           | Inr c \<Rightarrow> Inr (or_null (own_prop parsed ''name''), c, descr))
                     else if ty = Some (JString ''description'')
                     then Inr (fname, cid, or_null (own_prop parsed ''text''))
                     else Inr (fname, cid, descr)) of
                 Inl e \<Rightarrow> Inl e
               | Inr (fname', cid', descr') \<Rightarrow>
                   if truthy_opt fname' \<and> cid' \<noteq> None \<and> cid' \<noteq> Some [] \<and> truthy_opt descr'
                   then Inr (fname', cid', descr')
                   else info_loop ls (fname', cid', descr'))))"

definition extractJSONFunctionInfo :: "string \<Rightarrow> info res" where
  "extractJSONFunctionInfo content = info_loop (split_nl content) (None, None, None)"

text \<open>
  \<open>extractJSONParameters\<close>. The first pass takes the lines that parse; \<open>v ?? ''\<close>
  replaces \<open>null\<close> and \<open>undefined\<close> by the empty string. The second pass takes the keys
  that the expression finds in the raw text and the first pass did not set.
  \<open>parameters.hasOwnProperty\<close> is not callable once a parameter of that name is set: a
  \<open>TypeError\<close>.
\<close>

fun first_pass :: "string list \<Rightarrow> (string \<times> json) list \<Rightarrow> (string \<times> json) list res" where
  "first_pass [] parameters = Inr parameters"
| "first_pass (line # ls) parameters =
     (case parseJSONLine line of
        Inl e \<Rightarrow> Inl e
      | Inr None \<Rightarrow> first_pass ls parameters
      | Inr (Some parsed) \<Rightarrow>
          if own_prop parsed ''type'' = Some (JString ''parameter'') \<and> truthy_opt (own_prop parsed ''key'')
          then (case own_prop parsed ''key'' of
                  None \<Rightarrow> first_pass ls parameters
                | Some key \<Rightarrow>
                    (case js_toString key of
                       Inl e \<Rightarrow> Inl e
                     | Inr k \<Rightarrow>
                         first_pass ls
                           (assign parameters k
                              (case own_prop parsed ''value'' of
                                 None \<Rightarrow> JString []
                               | Some v \<Rightarrow> if v = JNull then JString [] else v))))
          else first_pass ls parameters)"

definition parameterPattern :: rx where
  "parameterPattern =
     seqs [Lit ''\"type\"'', Many CSpace, Lit '':'', Many CSpace, Lit ''\"parameter\"'',
           Many (CNoneOf ''}''), Lit ''\"key\"'', Many CSpace, Lit '':'', Many CSpace, Lit ''\"'',
           Grp 1 (Some1 (CNoneOf ''\"'')), Lit ''\"'',
           Many (CNoneOf ''}''), Lit ''\"value\"'', Many CSpace, Lit '':'', Many CSpace, Lit ''\"'',
           Grp 2 (Rep (Alt (Cl (CNoneOf [CHR 0x22, CHR 0x5C]))
                           (Seq (Lit [CHR 0x5C]) (Cl (CNoneOf [CHR 0x0A, CHR 0x0D])))))]"

text \<open>\<open>s.replace(/\\x/g, y)\<close>: every backslash followed by \<open>x\<close> becomes \<open>y\<close>.\<close>

fun unescape1 :: "char \<Rightarrow> char \<Rightarrow> string \<Rightarrow> string" where
  "unescape1 x y [] = []"
| "unescape1 x y [c] = [c]"
| "unescape1 x y (c # d # cs) =
     (if c = CHR 0x5C \<and> d = x then y # unescape1 x y cs else c # unescape1 x y (d # cs))"

definition unescape :: "string \<Rightarrow> string" where
  "unescape v =
     unescape1 (CHR 0x5C) (CHR 0x5C)
       (unescape1 (CHR 0x22) (CHR 0x22)
          (unescape1 (CHR ''r'') (CHR 0x0D)
             (unescape1 (CHR ''t'') (CHR 0x09)
                (unescape1 (CHR ''n'') (CHR 0x0A) v))))"

fun second_pass :: "string \<Rightarrow> rmatch list \<Rightarrow> (string \<times> json) list \<Rightarrow> (string \<times> json) list res" where
  "second_pass content [] parameters = Inr parameters"
| "second_pass content (mt # ms) parameters =
     (case grp content mt 1 of
        None \<Rightarrow> Inl TypeError
      | Some key \<Rightarrow>
          (case grp content mt 2 of
             None \<Rightarrow> Inl TypeError
           | Some val \<Rightarrow>
               if map_of parameters ''hasOwnProperty'' = None
               then (if map_of parameters key = None
                     then second_pass content ms (assign parameters key (JString (unescape val)))
                     else second_pass content ms parameters)
               else Inl TypeError))"

definition extractJSONParameters :: "string \<Rightarrow> (string \<times> json) list res" where
  "extractJSONParameters content =
     (if content = [] then Inr []
      else (case first_pass (split_nl content) [] of
              Inl e \<Rightarrow> Inl e
            | Inr parameters \<Rightarrow>
                second_pass content (matchAll parameterPattern (0, content)) parameters))"

section \<open>\<open>containsFunctionCalls\<close> (functionParser.ts)\<close>

text \<open>
  \<open>extractLanguageTag\<close> of languageParser.ts is not among the sources: it is the
  parameter \<open>elt\<close>, which returns the tag (\<open>None\<close> is \<open>null\<close>) and the content.
\<close>

definition fp_invoke_rx :: rx where
  "fp_invoke_rx =
     seqs [Lit ''<invoke name=\"'', Grp 1 (Some1 (CNoneOf ''\"'')), Lit ''\"'',
           Opt (seqs [Some1 CSpace, Lit ''call_id=\"'', Grp 2 (Some1 (CNoneOf ''\"'')), Lit ''\"'']),
           Lit ''>'']"

definition contentToExamine :: "(string \<Rightarrow> string option \<times> string) \<Rightarrow> string \<Rightarrow> string" where
  "contentToExamine elt content = (if snd (elt content) = [] then content else snd (elt content))"

text \<open>The XML part of \<open>containsFunctionCalls\<close>, on the content to examine.\<close>

definition xml_function_info :: "string option \<Rightarrow> string \<Rightarrow> FunctionInfo" where
  "xml_function_info tag examined =
     (let result = no_function_info
                     \<lparr>languageTag := (case tag of None \<Rightarrow> None
                                      | Some t \<Rightarrow> if t = [] then None else Some t)\<rparr>
      in if str_includes examined ''<function_calls>'' \<or> str_includes examined ''<invoke''
         then (let inv = str_includes examined ''<invoke'';
                   mt = (if inv then search fp_invoke_rx (0, examined) else None);
                   nm = (case mt of None \<Rightarrow> None | Some m \<Rightarrow> grp examined m 1);
                   cid = (case mt of None \<Rightarrow> None | Some m \<Rightarrow> grp examined m 2);
                   hasOpeningTag = str_includes examined ''<function_calls>'';
                   hasClosingTag = str_includes examined ''</function_calls>''
               in result
                    \<lparr>hasFunctionCalls := True,
                     detectedBlockType := Some ''xml'',
                     hasInvoke := inv,
                     hasParameters := str_includes examined ''<parameter'',
                     invokeName := map_option JString nm,
                     callId := (if nm = None then None else cid),
                     hasClosingTags := (hasOpeningTag \<and> hasClosingTag),
                     isComplete := (hasOpeningTag \<and> hasClosingTag)\<rparr>)
         else result)"

definition no_xml_marker :: "string \<Rightarrow> bool" where
  "no_xml_marker content =
     (\<not> str_includes content ''<'' \<and> \<not> str_includes content ''<function_calls>''
      \<and> \<not> str_includes content ''<invoke'' \<and> \<not> str_includes content ''</invoke>''
      \<and> \<not> str_includes content ''<parameter'')"

definition containsFunctionCalls :: "(string \<Rightarrow> string option \<times> string) \<Rightarrow> block \<Rightarrow> FunctionInfo res" where
  "containsFunctionCalls elt b =
     (let content = trim (textContent b)
      in (case containsJSONFunctionCalls b of
            Inl e \<Rightarrow> Inl e
          | Inr jsonResult \<Rightarrow>
              if hasFunctionCalls jsonResult
              then (case extractJSONFunctionInfo content of
                      Inl e \<Rightarrow> Inl e
                    | Inr (fname, cid, descr) \<Rightarrow> Inr (jsonResult\<lparr>description := or_null descr\<rparr>))
              else if no_xml_marker content then Inr no_function_info
              else Inr (xml_function_info (fst (elt content)) (contentToExamine elt content))))"

section \<open>\<open>scanForToolCalls\<close> (content/index.ts)\<close>

text \<open>
  The state of the extension that a scan reads and writes: the \<open>WeakSet\<close>
  \<open>processedElements\<close> (elements are named by numbers), the parser with its counter, and
  the tool calls handed to \<open>injectExecutionUIAfterCodeBlock\<close> so far, each with the element
  it was found in. A scan visits the code blocks of the document in order, each with its
  \<open>textContent\<close>.
\<close>

record extension =
  processedElements :: "nat set"
  parser :: ToolCallParser
  injected :: "(nat \<times> DetectedToolCall) list"

definition scan_block :: "clock \<Rightarrow> extension \<Rightarrow> nat \<times> string \<Rightarrow> extension res" where
  "scan_block clock ext blk =
     (case blk of (codeElement, text) \<Rightarrow>
        if codeElement \<in> processedElements ext then Inr ext
        else if \<not> str_includes text ''<function_calls>'' \<and> \<not> str_includes text ''<invoke'' then Inr ext
        else (case parseMessage clock (parser ext) text of
                Inl e \<Rightarrow> Inl e
              | Inr (toolCalls, p') \<Rightarrow>
                  if toolCalls \<noteq> []
                  then Inr (ext\<lparr>processedElements := insert codeElement (processedElements ext),
                               parser := p',
                               injected := injected ext @ map (Pair codeElement) toolCalls\<rparr>)
                  else Inr (ext\<lparr>parser := p'\<rparr>)))"

fun scanForToolCalls :: "clock \<Rightarrow> extension \<Rightarrow> (nat \<times> string) list \<Rightarrow> extension res" where
  "scanForToolCalls clock ext [] = Inr ext"
| "scanForToolCalls clock ext (blk # blks) =
     (case scan_block clock ext blk of
        Inl e \<Rightarrow> Inl e
      | Inr ext' \<Rightarrow> scanForToolCalls clock ext' blks)"

text \<open>A sequence of scans, one document snapshot after the other.\<close>

fun scans :: "clock \<Rightarrow> extension \<Rightarrow> (nat \<times> string) list list \<Rightarrow> extension res" where
  "scans clock ext [] = Inr ext"
| "scans clock ext (doc # docs) =
     (case scanForToolCalls clock ext doc of
        Inl e \<Rightarrow> Inl e
      | Inr ext' \<Rightarrow> scans clock ext' docs)"

section \<open>Definitions for the properties\<close>

text \<open>
  The capture groups that take part in every match of an expression, and the facts
  about the captures of a match that the proofs use.
\<close>

fun must :: "rx \<Rightarrow> nat list" where
  "must (Grp n a) = n # must a"
| "must (Seq a b) = must a @ must b"
| "must (Alt a b) = filter (\<lambda>n. n \<in> set (must b)) (must a)"
| "must r = []"

definition keeps :: "caps \<Rightarrow> caps \<Rightarrow> bool" where
  "keeps c c' = (\<forall>n. map_of c n \<noteq> None \<longrightarrow> map_of c' n \<noteq> None)"

definition has_groups :: "nat list \<Rightarrow> rmatch \<Rightarrow> bool" where
  "has_groups ns mt = (case mt of (b, e, c, rest) \<Rightarrow> list_all (\<lambda>n. map_of c n \<noteq> None) ns)"

text \<open>
  What a result holds: the tool calls, the parser, and the identities of the calls handed
  over for an element. \<open>handed el ext\<close> is what the consumer has received from element
  \<open>el\<close>.
\<close>

definition calls_of :: "pstate res \<Rightarrow> DetectedToolCall list" where
  "calls_of r = (case r of Inl e \<Rightarrow> [] | Inr (calls, p) \<Rightarrow> calls)"


definition handed :: "nat \<Rightarrow> extension \<Rightarrow> (nat \<times> DetectedToolCall) list" where
  "handed el ext = filter (\<lambda>x. fst x = el) (injected ext)"

definition handed_ids :: "nat \<Rightarrow> extension res \<Rightarrow> string list" where
  "handed_ids el r = (case r of Inl e \<Rightarrow> [] | Inr ext \<Rightarrow> map (\<lambda>x. tc_id (snd x)) (handed el ext))"

text \<open>
  What the XML matcher examines. \<open>xml_contents\<close> are the contents that \<open>parseXMLFormat\<close>
  passes to \<open>parseInvokeBlocks\<close>: group 1 of every match of \<open>functionCallsRegex\<close> when
  there is one, and otherwise group 1 of the match of \<open>incompleteFunctionCallsRegex\<close>, if
  it matches. \<open>invokes_in\<close> are the texts of the matches of \<open>invokeRegex\<close> in a content,
  and \<open>invoke_texts\<close> those of all the contents examined. A match of \<open>invokeRegex\<close> ends
  at \<open></invoke>\<close> or at the end of the content.
\<close>

definition xml_contents :: "string \<Rightarrow> string list" where
  "xml_contents text =
     (let completeMatches = matchAll functionCallsRegex (0, text)
      in if completeMatches \<noteq> [] then List.map_filter (\<lambda>mt. grp text mt 1) completeMatches
         else (case search incompleteFunctionCallsRegex (0, text) of
                 None \<Rightarrow> []
               | Some incompleteMatch \<Rightarrow> List.map_filter (\<lambda>mt. grp text mt 1) [incompleteMatch]))"

definition invokes_in :: "string \<Rightarrow> string list" where
  "invokes_in content = map (match0 content) (matchAll invokeRegex (0, content))"

definition invoke_texts :: "string \<Rightarrow> string list" where
  "invoke_texts text = concat (map invokes_in (xml_contents text))"

text \<open>
  The inputs of the scenarios and of the examples. \<open>clock0\<close> is a clock that stands
  still, and \<open>no_language_tag\<close> an \<open>extractLanguageTag\<close> for content that begins with no
  language tag: it finds no tag and returns the content as it is.
\<close>

definition clock0 :: clock where
  "clock0 n = 0"

definition parser0 :: ToolCallParser where
  "parser0 = \<lparr>idCounter = 0\<rparr>"

definition ext0 :: extension where
  "ext0 = \<lparr>processedElements = {}, parser = parser0, injected = []\<rparr>"

definition no_language_tag :: "string \<Rightarrow> string option \<times> string" where
  "no_language_tag content = (None, content)"

definition scenario1 :: string where
  "scenario1 = ''<function_calls><invoke name=\"read_file\" call_id=\"1\"><parameter name=\"path\">/tmp/test.txt</parameter></invoke></function_calls>''"

definition scenario2 :: string where
  "scenario2 = ''<function_calls><invoke name=\"read_file\" call_id=\"1\"><parameter name=\"path\">/tmp/te''"

definition start_t_1 :: string where
  "start_t_1 = ''{\"type\":\"function_call_start\",\"name\":\"t\",\"call_id\":\"1\"}''"

definition start_t :: string where
  "start_t = ''{\"type\":\"function_call_start\",\"name\":\"t\"}''"

definition parameter_x_5 :: string where
  "parameter_x_5 = ''{\"type\":\"parameter\",\"key\":\"x\",\"value\":5}''"

definition arg_x_5 :: string where
  "arg_x_5 = ''{\"type\":\"function_call_arg\",\"name\":\"x\",\"value\":5}''"

definition call_end :: string where
  "call_end = ''{\"type\":\"function_call_end\"}''"

definition scenario4 :: string where
  "scenario4 = start_t_1 @ [CHR 0x0A] @ parameter_x_5 @ [CHR 0x0A] @ call_end"

definition scenario5 :: string where
  "scenario5 = start_t @ call_end"

definition same_call_id :: string where
  "same_call_id = ''<function_calls><invoke name=\"a\" call_id=\"1\"></invoke><invoke name=\"b\" call_id=\"1\"></invoke></function_calls>''"

definition open_invoke :: string where
  "open_invoke = ''<function_calls><invoke name=\"read_file\"><parameter name=\"path\">/tmp/test.txt</parameter></function_calls>''"

definition xml_and_json :: string where
  "xml_and_json = scenario1 @ [CHR 0x0A] @ start_t @ [CHR 0x0A] @ call_end"


definition json_unclosed :: string where
  "json_unclosed = start_t @ [CHR 0x0A] @ arg_x_5"

definition start_b :: string where
  "start_b = ''{\"type\":\"function_call_start\",\"name\":\"b\"}''"

definition call_read_file :: "string \<Rightarrow> string \<Rightarrow> DetectedToolCall" where
  "call_read_file path raw =
     \<lparr>tc_id = ''1'', toolName = JString ''read_file'', arguments = [(''path'', JString path)],
      rawText = raw, format = Fxml\<rparr>"

definition streamed :: DetectedToolCall where
  "streamed = call_read_file ''/tmp/te''
     ''<invoke name=\"read_file\" call_id=\"1\"><parameter name=\"path\">/tmp/te''"

definition ext_streamed :: extension where
  "ext_streamed = \<lparr>processedElements = {0}, parser = parser0, injected = [(0, streamed)]\<rparr>"

definition call_a :: DetectedToolCall where
  "call_a = \<lparr>tc_id = ''tool-call-0-0'', toolName = JString ''a'', arguments = [],
             rawText = ''{\"type\":\"function_call_start\",\"name\":\"a\"}'', format = Fjson\<rparr>"

definition open_t :: DetectedToolCall where
  "open_t = \<lparr>tc_id = ''tool-call-0-0'', toolName = JString ''t'', arguments = [(''x'', JNumber ''5'')],
             rawText = start_t @ [CHR 0x0A] @ arg_x_5, format = Fjson\<rparr>"

definition closed_then_open :: string where
  "closed_then_open = ''<function_calls><invoke name=\"a\"></invoke></function_calls><function_calls><invoke name=\"b\">''"

definition start_nameless :: string where
  "start_nameless = ''{\"type\":\"function_call_start\"}''"

definition start_a :: string where
  "start_a = ''{\"type\":\"function_call_start\",\"name\":\"a\"}''"

definition start_toString :: string where
  "start_toString = ''{\"type\":\"function_call_start\",\"name\":\"t\",\"call_id\":{\"toString\":1}}''"

definition toString_call :: string where
  "toString_call = start_toString @ [CHR 0x0A] @ call_end"

definition parameter_hasOwnProperty :: string where
  "parameter_hasOwnProperty =
     ''{\"type\":\"parameter\",\"key\":\"hasOwnProperty\",\"value\":1}'' @ [CHR 0x0A] @
     ''{\"type\":\"parameter\",\"key\":\"x\",\"value\":\"y\"}''"

section \<open>Lemmas\<close>

subsection \<open>Capture groups\<close>

lemma keeps_refl: "keeps c c" by (simp add: keeps_def)
lemma keeps_trans: "keeps a b \<Longrightarrow> keeps b c \<Longrightarrow> keeps a c" by (simp add: keeps_def)
lemma keeps_cons: "keeps c ((n, v) # c)" by (simp add: keeps_def)

lemma capsI:
  "k st' c' = Some res \<Longrightarrow> keeps c c' \<Longrightarrow> (\<forall>n \<in> set ns. map_of c' n \<noteq> None) \<Longrightarrow>
   \<exists>st' c'. k st' c' = Some res \<and> keeps c c' \<and> (\<forall>n \<in> set ns. map_of c' n \<noteq> None)"
  by blast

lemma rx_match_caps:
  "rx_match r st c k = Some res \<Longrightarrow>
   \<exists>st' c'. k st' c' = Some res \<and> keeps c c' \<and> (\<forall>n \<in> set (must r). map_of c' n \<noteq> None)"
proof (induction r st c k arbitrary: res rule: rx_match.induct)
  case (1 l st c k)
  then obtain st' where "k st' c = Some res" by (auto split: option.splits)
  then show ?case by (intro capsI[where k=k and st'=st' and c'=c]) (auto simp: keeps_refl)
next
  case (2 l st c k)
  then obtain st' where "k st' c = Some res" by (auto split: option.splits)
  then show ?case by (intro capsI[where k=k and st'=st' and c'=c]) (auto simp: keeps_refl)
next
  case (3 x i s c k)
  then obtain st' where "k st' c = Some res" by (auto split: list.splits if_splits)
  then show ?case by (intro capsI[where k=k and st'=st' and c'=c]) (auto simp: keeps_refl)
next
  case (4 a b st c k)
  from 4(3) have "rx_match a st c (\<lambda>st' c'. rx_match b st' c' k) = Some res" by simp
  from 4(2)[OF this] obtain st1 c1 where
    s1: "rx_match b st1 c1 k = Some res" and k1: "keeps c c1" and m1: "\<forall>n \<in> set (must a). map_of c1 n \<noteq> None"
    by blast
  from 4(1)[OF s1] obtain st2 c2 where
    s2: "k st2 c2 = Some res" and k2: "keeps c1 c2" and m2: "\<forall>n \<in> set (must b). map_of c2 n \<noteq> None"
    by blast
  from m1 k2 have m1': "\<forall>n \<in> set (must a). map_of c2 n \<noteq> None" by (auto simp: keeps_def)
  have kk: "keeps c c2" using k1 k2 by (rule keeps_trans)
  have mm: "\<forall>n \<in> set (must (Seq a b)). map_of c2 n \<noteq> None" using m1' m2 by auto
  show ?case using s2 kk mm by (intro capsI[where k=k and st'=st2 and c'=c2])
next
  case (5 a b st c k)
  show ?case
  proof (cases "rx_match a st c k")
    case None
    with 5(3) have "rx_match b st c k = Some res" by simp
    from 5(2)[OF None this] obtain st' c' where
      h: "k st' c' = Some res" "keeps c c'" and hm: "\<forall>n \<in> set (must b). map_of c' n \<noteq> None" by blast
    show ?thesis using h hm by (intro capsI[where k=k and st'=st' and c'=c']) auto
  next
    case (Some r)
    with 5(3) have "rx_match a st c k = Some res" by simp
    from 5(1)[OF this] obtain st' c' where
      h: "k st' c' = Some res" "keeps c c'" and hm: "\<forall>n \<in> set (must a). map_of c' n \<noteq> None" by blast
    show ?thesis using h hm by (intro capsI[where k=k and st'=st' and c'=c']) auto
  qed
next
  case (6 x i s c k)
  show ?case
  proof (cases s)
    case Nil
    with 6(2) have "k (i, s) c = Some res" by simp
    then show ?thesis by (intro capsI[where k=k and st'="(i, s)" and c'=c]) (auto simp: keeps_refl)
  next
    case (Cons a t)
    show ?thesis
    proof (cases "in_cls x a")
      case False
      with Cons 6(2) have "k (i, s) c = Some res" by simp
      then show ?thesis by (intro capsI[where k=k and st'="(i, s)" and c'=c]) (auto simp: keeps_refl)
    next
      case True
      show ?thesis
      proof (cases "rx_match (Many x) (Suc i, t) c k")
        case None
        with True Cons 6(2) have "k (i, s) c = Some res" by simp
        then show ?thesis by (intro capsI[where k=k and st'="(i, s)" and c'=c]) (auto simp: keeps_refl)
      next
        case (Some r)
        with True Cons 6(2) have "rx_match (Many x) (Suc i, t) c k = Some res" by simp
        from 6(1)[OF Cons True this] show ?thesis by simp
      qed
    qed
  qed
next
  case (7 x i s c k)
  show ?case
  proof (cases "k (i, s) c")
    case (Some r)
    with 7(2) have "k (i, s) c = Some res" by simp
    then show ?thesis by (intro capsI[where k=k and st'="(i, s)" and c'=c]) (auto simp: keeps_refl)
  next
    case None
    show ?thesis
    proof (cases s)
      case Nil
      with None 7(2) show ?thesis by simp
    next
      case (Cons a t)
      show ?thesis
      proof (cases "in_cls x a")
        case False
        with None Cons 7(2) show ?thesis by simp
      next
        case True
        with None Cons 7(2) have "rx_match (ManyL x) (Suc i, t) c k = Some res" by simp
        from 7(1)[OF None Cons True this] show ?thesis by simp
      qed
    qed
  qed
next
  case (8 a st c k)
  show ?case
  proof (cases "rx_match a st c (\<lambda>st' c'. if length (snd st') < length (snd st) then rx_match (Rep a) st' c' k else None)")
    case None
    with 8(3) have "k st c = Some res" by simp
    then show ?thesis by (intro capsI[where k=k and st'=st and c'=c]) (auto simp: keeps_refl)
  next
    case (Some r)
    with 8(3) have eq: "rx_match a st c (\<lambda>st' c'. if length (snd st') < length (snd st) then rx_match (Rep a) st' c' k else None) = Some res" by simp
    from 8(2)[OF eq] obtain st1 c1 where
      s1: "(if length (snd st1) < length (snd st) then rx_match (Rep a) st1 c1 k else None) = Some res" and k1: "keeps c c1"
      by blast
    then have lt: "length (snd st1) < length (snd st)" and s1': "rx_match (Rep a) st1 c1 k = Some res"
      by (auto split: if_splits)
    from 8(1)[OF lt s1'] obtain st2 c2 where s2: "k st2 c2 = Some res" and k2: "keeps c1 c2" by auto
    have kk: "keeps c c2" using k1 k2 by (rule keeps_trans)
    show ?thesis using s2 kk by (intro capsI[where k=k and st'=st2 and c'=c2]) auto
  qed
next
  case (9 a st c k)
  show ?case
  proof (cases "rx_match a st c k")
    case None
    with 9(2) have "k st c = Some res" by simp
    then show ?thesis by (intro capsI[where k=k and st'=st and c'=c]) (auto simp: keeps_refl)
  next
    case (Some r)
    with 9(2) have "rx_match a st c k = Some res" by simp
    from 9(1)[OF this] obtain st' c' where h: "k st' c' = Some res" "keeps c c'" by blast
    show ?thesis using h by (intro capsI[where k=k and st'=st' and c'=c']) auto
  qed
next
  case (10 n a st c k)
  from 10(2) have "rx_match a st c (\<lambda>st' c'. k st' ((n, fst st, fst st') # c')) = Some res" by simp
  from 10(1)[OF this] obtain st1 c1 where
    s1: "k st1 ((n, fst st, fst st1) # c1) = Some res" and k1: "keeps c c1" and m1: "\<forall>n \<in> set (must a). map_of c1 n \<noteq> None"
    by blast
  have "keeps c ((n, fst st, fst st1) # c1)" using k1 keeps_cons keeps_trans by blast
  moreover have "\<forall>m \<in> set (must (Grp n a)). map_of ((n, fst st, fst st1) # c1) m \<noteq> None" using m1 by auto
  ultimately show ?case using s1 by (intro capsI[where k=k and st'=st1 and c'="(n, fst st, fst st1) # c1"])
next
  case (11 st c k)
  then have "k st c = Some res" by (auto split: if_splits)
  then show ?case by (intro capsI[where k=k and st'=st and c'=c]) (auto simp: keeps_refl)
qed


lemma match_here_caps:
  assumes "match_here r st = Some (b, e, c, rest)"
  shows "\<forall>n \<in> set (must r). map_of c n \<noteq> None"
proof -
  from assms have "rx_match r st [] (\<lambda>st' c. Some (fst st, fst st', c, snd st')) = Some (b, e, c, rest)"
    by (simp add: match_here_def)
  from rx_match_caps[OF this] show ?thesis by auto
qed

lemma search_caps:
  "search r st = Some (b, e, c, rest) \<Longrightarrow> \<forall>n \<in> set (must r). map_of c n \<noteq> None"
proof (induction r st rule: search.induct)
  case (1 r i s)
  show ?case
  proof (cases "match_here r (i, s)")
    case (Some mt)
    with 1(2) have "match_here r (i, s) = Some (b, e, c, rest)" by simp
    then show ?thesis by (rule match_here_caps)
  next
    case None
    with 1(2) obtain a t where s: "s = a # t" and "search r (Suc i, t) = Some (b, e, c, rest)"
      by (auto split: list.splits)
    with 1(1)[OF None s] show ?thesis by simp
  qed
qed

lemma matchAll_caps:
  "list_all (has_groups (must r)) (matchAll r st)"
proof (induction r st rule: matchAll.induct)
  case (1 r i s)
  show ?case
  proof (cases "search r (i, s)")
    case None
    then show ?thesis by (simp add: matchAll.simps)
  next
    case (Some mt)
    obtain b e c rest where mt: "mt = (b, e, c, rest)" by (cases mt) auto
    have hd: "has_groups (must r) (b, e, c, rest)"
      using search_caps[OF Some[unfolded mt]] by (simp add: has_groups_def list_all_iff)
    show ?thesis
      using Some mt hd 1
      by (subst matchAll.simps) (auto split: list.splits)
  qed
qed

lemma has_groups_grp:
  "has_groups ns mt \<Longrightarrow> n \<in> set ns \<Longrightarrow> \<exists>g. grp s mt n = Some g"
  by (cases mt) (auto simp: has_groups_def grp_def list_all_iff split: option.splits)

lemma parseValue_total: "\<exists>v. parseValue s = Inr v"
  by (simp add: parseValue_def split: sum.splits)

lemma param_loop_total:
  "list_all (has_groups [1, 2]) ms \<Longrightarrow> \<exists>r. param_loop content ms args = Inr r"
proof (induction ms arbitrary: args)
  case Nil
  then show ?case by simp
next
  case (Cons mt ms)
  then have hg: "has_groups [1, 2] mt" and rest: "list_all (has_groups [1, 2]) ms" by simp_all
  from has_groups_grp[OF hg, of 1 content] obtain g1 where g1: "grp content mt 1 = Some g1" by auto
  from has_groups_grp[OF hg, of 2 content] obtain g2 where g2: "grp content mt 2 = Some g2" by auto
  obtain v where v: "parseValue (cdata (trim g2)) = Inr v" using parseValue_total by blast
  show ?case using g1 g2 v Cons.IH[OF rest] by simp
qed

lemma must_parameterRegex: "must parameterRegex = [1, 2]"
  by (simp add: parameterRegex_def Some1_def)

lemma must_invokeRegex: "must invokeRegex = [1, 3]"
  by (simp add: invokeRegex_def Some1_def)

lemma must_functionCallsRegex: "must functionCallsRegex = [1]"
  by (simp add: functionCallsRegex_def)

lemma must_incompleteFunctionCallsRegex: "must incompleteFunctionCallsRegex = [1]"
  by (simp add: incompleteFunctionCallsRegex_def)

lemma invoke_loop_total:
  "list_all (has_groups [1, 3]) ms \<Longrightarrow> \<exists>r. invoke_loop clock content ms st = Inr r"
proof (induction ms arbitrary: st)
  case Nil
  then show ?case by simp
next
  case (Cons mt ms)
  then have hg: "has_groups [1, 3] mt" and rest: "list_all (has_groups [1, 3]) ms" by simp_all
  obtain calls p where st: "st = (calls, p)" by (cases st) auto
  from has_groups_grp[OF hg, of 1 content] obtain g1 where g1: "grp content mt 1 = Some g1" by auto
  from has_groups_grp[OF hg, of 3 content] obtain g3 where g3: "grp content mt 3 = Some g3" by auto
  obtain cid p' where cid: "callId_of clock (grp content mt 2) p = (cid, p')" by (cases "callId_of clock (grp content mt 2) p") auto
  have "list_all (has_groups [1, 2]) (matchAll parameterRegex (0, g3))"
    using matchAll_caps[of parameterRegex "(0, g3)"] by (simp add: must_parameterRegex)
  from param_loop_total[OF this] obtain args where args: "param_loop g3 (matchAll parameterRegex (0, g3)) [] = Inr args"
    by blast
  show ?case using st g1 g3 cid args Cons.IH[OF rest] by simp
qed

lemma parseInvokeBlocks_total: "\<exists>r. parseInvokeBlocks clock content st = Inr r"
  unfolding parseInvokeBlocks_def
  using matchAll_caps[of invokeRegex "(0, content)"]
  by (intro invoke_loop_total) (simp add: must_invokeRegex)

lemma complete_loop_total:
  "list_all (has_groups [1]) ms \<Longrightarrow> \<exists>r. complete_loop clock text ms st = Inr r"
proof (induction ms arbitrary: st)
  case Nil
  then show ?case by simp
next
  case (Cons mt ms)
  then have hg: "has_groups [1] mt" and rest: "list_all (has_groups [1]) ms" by simp_all
  from has_groups_grp[OF hg, of 1 "text"] obtain g1 where g1: "grp text mt 1 = Some g1" by auto
  obtain st' where st': "parseInvokeBlocks clock g1 st = Inr st'" using parseInvokeBlocks_total by blast
  show ?case using g1 st' Cons.IH[OF rest] by simp
qed

lemma parseXMLFormat_total: "\<exists>r. parseXMLFormat clock p text = Inr r"
proof (cases "matchAll functionCallsRegex (0, text) = []")
  case False
  have "list_all (has_groups [1]) (matchAll functionCallsRegex (0, text))"
    using matchAll_caps[of functionCallsRegex "(0, text)"] by (simp add: must_functionCallsRegex)
  from complete_loop_total[OF this] False show ?thesis by (simp add: parseXMLFormat_def Let_def)
next
  case True
  show ?thesis
  proof (cases "search incompleteFunctionCallsRegex (0, text)")
    case None
    with True show ?thesis by (simp add: parseXMLFormat_def)
  next
    case (Some mt)
    obtain b e c rest where mt: "mt = (b, e, c, rest)" by (cases mt) auto
    from search_caps[OF Some[unfolded mt]] have "has_groups [1] mt"
      by (simp add: must_incompleteFunctionCallsRegex has_groups_def mt)
    from has_groups_grp[OF this, of 1 "text"] obtain g1 where g1: "grp text mt 1 = Some g1" by auto
    obtain r where "parseInvokeBlocks clock g1 ([], p) = Inr r" using parseInvokeBlocks_total by blast
    with True Some g1 show ?thesis by (simp add: parseXMLFormat_def)
  qed
qed

lemma parseJSONFormat_total: "\<exists>r. parseJSONFormat clock p text = Inr r"
  by (simp add: parseJSONFormat_def split: prod.splits)

lemma parseMessage_total: "\<exists>r. parseMessage clock p text = Inr r"
proof -
  obtain xs p1 where x: "parseXMLFormat clock p text = Inr (xs, p1)"
    using parseXMLFormat_total[of clock p "text"] by auto
  obtain js p2 where j: "parseJSONFormat clock p1 text = Inr (js, p2)"
    using parseJSONFormat_total[of clock p1 "text"] by auto
  show ?thesis using x j by (simp add: parseMessage_def)
qed

subsection \<open>Generated identities\<close>









subsection \<open>Scans\<close>

lemma filter_Pair:
  "filter (\<lambda>x. fst x = el) (map (Pair e) calls) = (if e = el then map (Pair e) calls else [])"
  by (induction calls) auto

lemma scan_block_cases:
  assumes "scan_block clock ext (e, t) = Inr ext'"
  shows "ext' = ext \<or> (\<exists>p'. ext' = ext\<lparr>parser := p'\<rparr>)
         \<or> (e \<notin> processedElements ext \<and>
             (\<exists>calls p'. calls \<noteq> [] \<and>
                ext' = ext\<lparr>processedElements := insert e (processedElements ext), parser := p',
                          injected := injected ext @ map (Pair e) calls\<rparr>))"
  using assms by (auto simp: scan_block_def split: if_splits sum.splits prod.splits)

lemma scan_block_mono:
  assumes "scan_block clock ext blk = Inr ext'"
  shows "processedElements ext \<subseteq> processedElements ext'"
proof -
  obtain e t where blk: "blk = (e, t)" by (cases blk) auto
  from scan_block_cases[OF assms[unfolded blk]] show ?thesis by auto
qed

lemma scan_block_skip:
  assumes "scan_block clock ext blk = Inr ext'" and "el \<in> processedElements ext"
  shows "handed el ext' = handed el ext"
proof -
  obtain e t where blk: "blk = (e, t)" by (cases blk) auto
  from scan_block_cases[OF assms(1)[unfolded blk]] assms(2) show ?thesis
    by (auto simp: handed_def filter_Pair)
qed

lemma scan_block_handed:
  assumes "scan_block clock ext blk = Inr ext'" and "handed el ext' \<noteq> handed el ext"
  shows "el \<in> processedElements ext'"
proof -
  obtain e t where blk: "blk = (e, t)" by (cases blk) auto
  from scan_block_cases[OF assms(1)[unfolded blk]] assms(2) show ?thesis
    by (auto simp: handed_def filter_Pair split: if_splits)
qed

lemma scanForToolCalls_mono:
  "scanForToolCalls clock ext blks = Inr ext' \<Longrightarrow> processedElements ext \<subseteq> processedElements ext'"
proof (induction blks arbitrary: ext)
  case Nil
  then show ?case by simp
next
  case (Cons blk blks)
  then obtain ext1 where s: "scan_block clock ext blk = Inr ext1" and r: "scanForToolCalls clock ext1 blks = Inr ext'"
    by (auto split: sum.splits)
  from scan_block_mono[OF s] Cons.IH[OF r] show ?case by blast
qed

lemma scanForToolCalls_skip:
  "scanForToolCalls clock ext blks = Inr ext' \<Longrightarrow> el \<in> processedElements ext \<Longrightarrow> handed el ext' = handed el ext"
proof (induction blks arbitrary: ext)
  case Nil
  then show ?case by simp
next
  case (Cons blk blks)
  then obtain ext1 where s: "scan_block clock ext blk = Inr ext1" and r: "scanForToolCalls clock ext1 blks = Inr ext'"
    by (auto split: sum.splits)
  from scan_block_mono[OF s] Cons.prems(2) have "el \<in> processedElements ext1" by blast
  from Cons.IH[OF r this] scan_block_skip[OF s Cons.prems(2)] show ?case by simp
qed

lemma scanForToolCalls_handed:
  "scanForToolCalls clock ext blks = Inr ext' \<Longrightarrow> handed el ext' \<noteq> handed el ext \<Longrightarrow> el \<in> processedElements ext'"
proof (induction blks arbitrary: ext)
  case Nil
  then show ?case by simp
next
  case (Cons blk blks)
  then obtain ext1 where s: "scan_block clock ext blk = Inr ext1" and r: "scanForToolCalls clock ext1 blks = Inr ext'"
    by (auto split: sum.splits)
  show ?case
  proof (cases "handed el ext1 = handed el ext")
    case True
    with Cons.prems(2) have "handed el ext' \<noteq> handed el ext1" by simp
    from Cons.IH[OF r this] show ?thesis .
  next
    case False
    from scan_block_handed[OF s False] scanForToolCalls_mono[OF r] show ?thesis by blast
  qed
qed

lemma scans_mono:
  "scans clock ext docs = Inr ext' \<Longrightarrow> processedElements ext \<subseteq> processedElements ext'"
proof (induction docs arbitrary: ext)
  case Nil
  then show ?case by simp
next
  case (Cons d docs)
  then obtain ext1 where s: "scanForToolCalls clock ext d = Inr ext1" and r: "scans clock ext1 docs = Inr ext'"
    by (auto split: sum.splits)
  from scanForToolCalls_mono[OF s] Cons.IH[OF r] show ?case by blast
qed

lemma scans_skip:
  "scans clock ext docs = Inr ext' \<Longrightarrow> el \<in> processedElements ext \<Longrightarrow> handed el ext' = handed el ext"
proof (induction docs arbitrary: ext)
  case Nil
  then show ?case by simp
next
  case (Cons d docs)
  then obtain ext1 where s: "scanForToolCalls clock ext d = Inr ext1" and r: "scans clock ext1 docs = Inr ext'"
    by (auto split: sum.splits)
  from scanForToolCalls_mono[OF s] Cons.prems(2) have "el \<in> processedElements ext1" by blast
  from Cons.IH[OF r this] scanForToolCalls_skip[OF s Cons.prems(2)] show ?case by simp
qed

lemma scans_handed:
  "scans clock ext docs = Inr ext' \<Longrightarrow> handed el ext' \<noteq> handed el ext \<Longrightarrow> el \<in> processedElements ext'"
proof (induction docs arbitrary: ext)
  case Nil
  then show ?case by simp
next
  case (Cons d docs)
  then obtain ext1 where s: "scanForToolCalls clock ext d = Inr ext1" and r: "scans clock ext1 docs = Inr ext'"
    by (auto split: sum.splits)
  show ?case
  proof (cases "handed el ext1 = handed el ext")
    case True
    with Cons.prems(2) have "handed el ext' \<noteq> handed el ext1" by simp
    from Cons.IH[OF r this] show ?thesis .
  next
    case False
    from scanForToolCalls_handed[OF s False] scans_mono[OF r] show ?thesis by blast
  qed
qed

lemma scan_block_once:
  assumes "scan_block clock ext (e, t) = Inr ext'"
  shows "handed el ext' = handed el ext
       \<or> (e = el \<and> el \<in> processedElements ext'
           \<and> (\<exists>calls q'. parseMessage clock (parser ext) t = Inr (calls, q') \<and> calls \<noteq> []
                  \<and> handed el ext' = handed el ext @ map (Pair el) calls))"
  using assms
  by (auto simp: scan_block_def handed_def filter_Pair split: if_splits sum.splits prod.splits)

lemma scanForToolCalls_once:
  "scanForToolCalls clock ext blks = Inr ext' \<Longrightarrow>
   handed el ext' = handed el ext
   \<or> (el \<in> processedElements ext'
       \<and> (\<exists>t q calls q'. (el, t) \<in> set blks \<and> parseMessage clock q t = Inr (calls, q')
              \<and> calls \<noteq> [] \<and> handed el ext' = handed el ext @ map (Pair el) calls))"
proof (induction blks arbitrary: ext)
  case Nil
  then show ?case by simp
next
  case (Cons blk blks)
  then obtain ext1 where s: "scan_block clock ext blk = Inr ext1"
    and r: "scanForToolCalls clock ext1 blks = Inr ext'"
    by (auto split: sum.splits)
  obtain e t where blk: "blk = (e, t)" by (cases blk) auto
  from scan_block_once[OF s[unfolded blk], of el] show ?case
  proof
    assume same: "handed el ext1 = handed el ext"
    from Cons.IH[OF r] same show ?thesis by auto
  next
    assume "e = el \<and> el \<in> processedElements ext1
           \<and> (\<exists>calls q'. parseMessage clock (parser ext) t = Inr (calls, q') \<and> calls \<noteq> []
                  \<and> handed el ext1 = handed el ext @ map (Pair el) calls)"
    then obtain calls q' where e: "e = el" and m: "el \<in> processedElements ext1"
      and pm: "parseMessage clock (parser ext) t = Inr (calls, q')" and ne: "calls \<noteq> []"
      and h: "handed el ext1 = handed el ext @ map (Pair el) calls" by blast
    from scanForToolCalls_skip[OF r m] h have h': "handed el ext' = handed el ext @ map (Pair el) calls"
      by simp
    from scanForToolCalls_mono[OF r] m have m': "el \<in> processedElements ext'" by blast
    have "(el, t) \<in> set (blk # blks)" using blk e by simp
    with pm ne h' m' show ?thesis by blast
  qed
qed

lemma scans_once:
  "scans clock ext docs = Inr ext' \<Longrightarrow>
   handed el ext' = handed el ext
   \<or> (el \<in> processedElements ext'
       \<and> (\<exists>t q calls q'. (el, t) \<in> set (concat docs) \<and> parseMessage clock q t = Inr (calls, q')
              \<and> calls \<noteq> [] \<and> handed el ext' = handed el ext @ map (Pair el) calls))"
proof (induction docs arbitrary: ext)
  case Nil
  then show ?case by simp
next
  case (Cons d docs)
  then obtain ext1 where s: "scanForToolCalls clock ext d = Inr ext1"
    and r: "scans clock ext1 docs = Inr ext'"
    by (auto split: sum.splits)
  from scanForToolCalls_once[OF s, of el] show ?case
  proof
    assume same: "handed el ext1 = handed el ext"
    from Cons.IH[OF r] same show ?thesis by auto
  next
    assume "el \<in> processedElements ext1
       \<and> (\<exists>t q calls q'. (el, t) \<in> set d \<and> parseMessage clock q t = Inr (calls, q')
              \<and> calls \<noteq> [] \<and> handed el ext1 = handed el ext @ map (Pair el) calls)"
    then obtain t q calls q' where m: "el \<in> processedElements ext1" and i: "(el, t) \<in> set d"
      and pm: "parseMessage clock q t = Inr (calls, q')" and ne: "calls \<noteq> []"
      and h: "handed el ext1 = handed el ext @ map (Pair el) calls" by blast
    from scans_skip[OF r m] h have h': "handed el ext' = handed el ext @ map (Pair el) calls"
      by simp
    from scans_mono[OF r] m have m': "el \<in> processedElements ext'" by blast
    have "(el, t) \<in> set (concat (d # docs))" using i by simp
    with pm ne h' m' show ?thesis by blast
  qed
qed

lemma scans_append:
  "scans clock ext (ds1 @ ds2) =
     (case scans clock ext ds1 of Inl e \<Rightarrow> Inl e | Inr ext1 \<Rightarrow> scans clock ext1 ds2)"
  by (induction ds1 arbitrary: ext) (auto split: sum.splits)

lemma get_value_total: "get j k = Inr r \<Longrightarrow> \<exists>r'. get j k' = Inr r'"
  by (cases j) (auto simp: get_def)


subsection \<open>Formats, classification and parameters\<close>

lemma invoke_loop_format:
  "invoke_loop clock content ms (calls, p) = Inr (calls', p') \<Longrightarrow>
   list_all (\<lambda>c. format c = Fxml) calls \<Longrightarrow> list_all (\<lambda>c. format c = Fxml) calls'"
proof (induction ms arbitrary: calls p)
  case Nil
  then show ?case by simp
next
  case (Cons mt ms)
  from Cons.prems(1) obtain name cid p1 pc args where
    r: "invoke_loop clock content ms
          (calls @ [\<lparr>tc_id = cid, toolName = JString name, arguments = args,
                     rawText = match0 content mt, format = Fxml\<rparr>], p1) = Inr (calls', p')"
    by (auto split: option.splits prod.splits sum.splits)
  show ?case by (rule Cons.IH[OF r]) (use Cons.prems(2) in simp)
qed

lemma complete_loop_format:
  "complete_loop clock text ms (calls, p) = Inr (calls', p') \<Longrightarrow>
   list_all (\<lambda>c. format c = Fxml) calls \<Longrightarrow> list_all (\<lambda>c. format c = Fxml) calls'"
proof (induction ms arbitrary: calls p)
  case Nil
  then show ?case by simp
next
  case (Cons mt ms)
  from Cons.prems(1) obtain g calls1 p1 where
    i: "parseInvokeBlocks clock g (calls, p) = Inr (calls1, p1)"
    and r: "complete_loop clock text ms (calls1, p1) = Inr (calls', p')"
    by (auto split: option.splits prod.splits sum.splits)
  from i Cons.prems(2) have "list_all (\<lambda>c. format c = Fxml) calls1"
    unfolding parseInvokeBlocks_def by (rule invoke_loop_format)
  from Cons.IH[OF r this] show ?case .
qed

lemma parseXMLFormat_format:
  assumes "parseXMLFormat clock p text = Inr (calls, p')"
  shows "list_all (\<lambda>c. format c = Fxml) calls"
proof (cases "matchAll functionCallsRegex (0, text) = []")
  case False
  with assms have "complete_loop clock text (matchAll functionCallsRegex (0, text)) ([], p) = Inr (calls, p')"
    by (simp add: parseXMLFormat_def Let_def)
  from complete_loop_format[OF this] show ?thesis by simp
next
  case True
  show ?thesis
  proof (cases "search incompleteFunctionCallsRegex (0, text)")
    case None
    with True assms show ?thesis by (simp add: parseXMLFormat_def)
  next
    case (Some mt)
    with True assms obtain g where "parseInvokeBlocks clock g ([], p) = Inr (calls, p')"
      by (auto simp: parseXMLFormat_def split: option.splits)
    then show ?thesis unfolding parseInvokeBlocks_def using invoke_loop_format by fastforce
  qed
qed

lemma json_info_block_type:
  assumes "containsJSONFunctionCalls b = Inr r"
  shows "detectedBlockType r \<noteq> Some ''xml''"
proof -
  have a: "detectedBlockType no_function_info \<noteq> Some ''xml''" by (simp add: no_function_info_def)
  have b: "\<And>s h l. detectedBlockType (json_function_info s h l) \<noteq> Some ''xml''"
    by (simp add: json_function_info_def no_function_info_def)
  from assms have "r = no_function_info \<or> (\<exists>s h l. r = json_function_info s h l)"
    by (auto simp: containsJSONFunctionCalls_def Let_def split: if_splits sum.splits prod.splits)
  with a b show ?thesis by auto
qed

lemma xml_function_info_complete:
  "detectedBlockType (xml_function_info tag ex) = Some ''xml'' \<Longrightarrow>
   isComplete (xml_function_info tag ex) =
     (str_includes ex ''<function_calls>'' \<and> str_includes ex ''</function_calls>'')"
  by (simp add: xml_function_info_def Let_def no_function_info_def split: if_splits)

lemma first_pass_append:
  "first_pass (xs @ ys) ps = (case first_pass xs ps of Inl e \<Rightarrow> Inl e | Inr q \<Rightarrow> first_pass ys q)"
  by (induction xs arbitrary: ps) (auto split: sum.splits option.splits)

lemma first_pass_last_wins:
  assumes "first_pass ls ps = Inr ps1"
    and "parseJSONLine line = Inr (Some parsed)"
    and "own_prop parsed ''type'' = Some (JString ''parameter'')"
    and "own_prop parsed ''key'' = Some (JString k)"
    and "k \<noteq> []" and "k \<noteq> ''__proto__''"
    and "own_prop parsed ''value'' = Some v" and "v \<noteq> JNull"
  shows "first_pass (ls @ [line]) ps = Inr (AList.update k v ps1)
       \<and> map_of (AList.update k v ps1) = (map_of ps1)(k \<mapsto> v)"
  using assms
  by (simp add: first_pass_append truthy_opt_def truthy_def assign_def update_conv')

subsection \<open>What the XML matcher returns\<close>

lemma invoke_loop_rawText:
  "invoke_loop clock content ms (calls, p) = Inr (calls', p') \<Longrightarrow>
   map rawText calls' = map rawText calls @ map (match0 content) ms"
proof (induction ms arbitrary: calls p)
  case Nil
  then show ?case by simp
next
  case (Cons mt ms)
  from Cons.prems obtain name cid p1 args where
    r: "invoke_loop clock content ms
          (calls @ [\<lparr>tc_id = cid, toolName = JString name, arguments = args,
                     rawText = match0 content mt, format = Fxml\<rparr>], p1) = Inr (calls', p')"
    by (auto split: option.splits prod.splits sum.splits)
  from Cons.IH[OF r] show ?case by simp
qed

lemma parseInvokeBlocks_rawText:
  "parseInvokeBlocks clock content (calls, p) = Inr (calls', p') \<Longrightarrow>
   map rawText calls' = map rawText calls @ invokes_in content"
  unfolding parseInvokeBlocks_def invokes_in_def by (rule invoke_loop_rawText)

lemma parseInvokeBlocks_none:
  "invokes_in content = [] \<Longrightarrow> parseInvokeBlocks clock content st = Inr st"
  by (simp add: invokes_in_def parseInvokeBlocks_def)

lemma complete_loop_rawText:
  "complete_loop clock text ms (calls, p) = Inr (calls', p') \<Longrightarrow>
   map rawText calls' =
     map rawText calls @ concat (map invokes_in (List.map_filter (\<lambda>mt. grp text mt 1) ms))"
proof (induction ms arbitrary: calls p)
  case Nil
  then show ?case by (simp add: List.map_filter_simps)
next
  case (Cons mt ms)
  from Cons.prems obtain g calls1 p1 where
    g: "grp text mt 1 = Some g"
    and i: "parseInvokeBlocks clock g (calls, p) = Inr (calls1, p1)"
    and r: "complete_loop clock text ms (calls1, p1) = Inr (calls', p')"
    by (auto split: option.splits prod.splits sum.splits)
  from Cons.IH[OF r] parseInvokeBlocks_rawText[OF i] g show ?case
    by (simp add: List.map_filter_simps)
qed

lemma complete_loop_none:
  "complete_loop clock text ms st = Inr st' \<Longrightarrow>
   concat (map invokes_in (List.map_filter (\<lambda>mt. grp text mt 1) ms)) = [] \<Longrightarrow> st' = st"
proof (induction ms arbitrary: st)
  case Nil
  then show ?case by simp
next
  case (Cons mt ms)
  from Cons.prems(1) obtain g st1 where
    g: "grp text mt 1 = Some g"
    and i: "parseInvokeBlocks clock g st = Inr st1"
    and r: "complete_loop clock text ms st1 = Inr st'"
    by (auto split: option.splits sum.splits)
  from Cons.prems(2) g have n: "invokes_in g = []"
    and m: "concat (map invokes_in (List.map_filter (\<lambda>mt. grp text mt 1) ms)) = []"
    by (simp_all add: List.map_filter_simps)
  from parseInvokeBlocks_none[OF n, of clock st] i have "st1 = st" by simp
  with Cons.IH[OF r m] show ?case by simp
qed

lemma xml_contents_complete:
  "matchAll functionCallsRegex (0, text) \<noteq> [] \<Longrightarrow>
   xml_contents text = List.map_filter (\<lambda>mt. grp text mt 1) (matchAll functionCallsRegex (0, text))"
  by (simp add: xml_contents_def Let_def)

lemma xml_contents_incomplete:
  "matchAll functionCallsRegex (0, text) = [] \<Longrightarrow>
   search incompleteFunctionCallsRegex (0, text) = Some mt \<Longrightarrow> grp text mt 1 = Some g \<Longrightarrow>
   xml_contents text = [g]"
  by (simp add: xml_contents_def List.map_filter_simps del: search.simps)

lemma xml_contents_none:
  "matchAll functionCallsRegex (0, text) = [] \<Longrightarrow>
   search incompleteFunctionCallsRegex (0, text) = None \<Longrightarrow> xml_contents text = []"
  by (simp add: xml_contents_def del: search.simps)

lemma parseXMLFormat_rawText:
  assumes "parseXMLFormat clock p text = Inr (calls, p')"
  shows "map rawText calls = invoke_texts text"
proof (cases "matchAll functionCallsRegex (0, text) = []")
  case False
  with assms have "complete_loop clock text (matchAll functionCallsRegex (0, text)) ([], p) = Inr (calls, p')"
    by (simp add: parseXMLFormat_def Let_def)
  from complete_loop_rawText[OF this] show ?thesis
    by (simp add: invoke_texts_def xml_contents_complete[OF False])
next
  case True
  show ?thesis
  proof (cases "search incompleteFunctionCallsRegex (0, text)")
    case None
    with True assms show ?thesis
      by (simp add: parseXMLFormat_def invoke_texts_def xml_contents_none[OF True None] del: search.simps)
  next
    case (Some mt)
    with True assms obtain g where g: "grp text mt 1 = Some g"
      and i: "parseInvokeBlocks clock g ([], p) = Inr (calls, p')"
      by (auto simp: parseXMLFormat_def simp del: search.simps split: option.splits)
    from parseInvokeBlocks_rawText[OF i] show ?thesis
      by (simp add: invoke_texts_def xml_contents_incomplete[OF True Some g])
  qed
qed

lemma parseXMLFormat_none:
  assumes "parseXMLFormat clock p text = Inr (calls, p')" and "invoke_texts text = []"
  shows "calls = [] \<and> p' = p"
proof (cases "matchAll functionCallsRegex (0, text) = []")
  case False
  with assms(1) have c: "complete_loop clock text (matchAll functionCallsRegex (0, text)) ([], p) = Inr (calls, p')"
    by (simp add: parseXMLFormat_def Let_def)
  from assms(2) have "concat (map invokes_in (List.map_filter (\<lambda>mt. grp text mt 1) (matchAll functionCallsRegex (0, text)))) = []"
    by (simp only: invoke_texts_def xml_contents_complete[OF False])
  from complete_loop_none[OF c this] show ?thesis by simp
next
  case True
  show ?thesis
  proof (cases "search incompleteFunctionCallsRegex (0, text)")
    case None
    with True assms(1) show ?thesis by (simp add: parseXMLFormat_def del: search.simps)
  next
    case (Some mt)
    with True assms(1) obtain g where g: "grp text mt 1 = Some g"
      and i: "parseInvokeBlocks clock g ([], p) = Inr (calls, p')"
      by (auto simp: parseXMLFormat_def simp del: search.simps split: option.splits)
    from assms(2) have "invokes_in g = []"
      by (simp add: invoke_texts_def xml_contents_incomplete[OF True Some g])
    from parseInvokeBlocks_none[OF this, of clock "([], p)"] i show ?thesis by simp
  qed
qed

lemma parseMessage_cases:
  assumes "parseXMLFormat clock p text = Inr (xmlCalls, p1)"
  shows "parseMessage clock p text =
           (if xmlCalls = [] then parseJSONFormat clock p1 text else Inr (xmlCalls, p1))"
proof -
  obtain js p2 where j: "parseJSONFormat clock p1 text = Inr (js, p2)"
    using parseJSONFormat_total[of clock p1 "text"] by auto
  show ?thesis using assms j by (simp add: parseMessage_def)
qed

lemma scan_block_eq:
  assumes "parseMessage clock (parser ext) text = Inr (toolCalls, q)"
  shows "scan_block clock ext (el, text) =
           Inr (if el \<in> processedElements ext
                   \<or> \<not> (str_includes text ''<function_calls>'' \<or> str_includes text ''<invoke'')
                then ext
                else ext\<lparr>processedElements :=
                           (if toolCalls = [] then processedElements ext
                            else insert el (processedElements ext)),
                         parser := q,
                         injected := injected ext @ map (Pair el) toolCalls\<rparr>)"
  using assms by (simp add: scan_block_def)

section \<open>The claims\<close>

subsection \<open>Evaluations\<close>

lemma scenario2_parse: "parseMessage clock p scenario2 = Inr ([streamed], p)"
  by code_simp

lemma scenario2_scan: "scans clock0 ext0 [[(0, scenario2)]] = Inr ext_streamed"
  by code_simp

lemma scenario1_rescan: "scans clock0 ext_streamed [[(0, scenario1)]] = Inr ext_streamed"
  by code_simp

lemma scenario2_open: "\<not> str_includes scenario2 ''</invoke>'' \<and> \<not> str_includes scenario2 ''</function_calls>''"
  by code_simp

lemma json_unclosed_open: "\<not> str_includes json_unclosed ''function_call_end''"
  by code_simp

lemma json_unclosed_parse:
  "map toolName (calls_of (parseMessage clock0 parser0 json_unclosed)) = [JString ''t'']
   \<and> map arguments (calls_of (parseMessage clock0 parser0 json_unclosed)) = [[(''x'', JNumber ''5'')]]"
  by code_simp

lemma json_unclosed_loop:
  "json_lines clock0 (split_nl json_unclosed) ([], None, parser0) = ([], Some open_t, \<lparr>idCounter = 1\<rparr>)"
  by code_simp

lemma json_unclosed_xml: "parseXMLFormat clock0 parser0 json_unclosed = Inr ([], parser0)"
  by code_simp

lemma json_unclosed_json: "parseJSONFormat clock0 parser0 json_unclosed = Inr ([open_t], \<lparr>idCounter = 1\<rparr>)"
  by code_simp

lemma xml_and_json_xml:
  "parseXMLFormat clock p xml_and_json =
     Inr ([call_read_file ''/tmp/test.txt''
             ''<invoke name=\"read_file\" call_id=\"1\"><parameter name=\"path\">/tmp/test.txt</parameter></invoke>''], p)"
  by code_simp

lemma start_b_line:
  "startsWith (trim start_b) ''{''
   \<and> JSON_parse (trim start_b) = Inr (JObject [(''type'', JString ''function_call_start''), (''name'', JString ''b'')])"
  by code_simp

lemma two_starts_parse:
  "map toolName (calls_of (parseJSONFormat clock0 parser0
      (''{\"type\":\"function_call_start\",\"name\":\"a\"}'' @ [CHR 0x0A] @ start_b @ [CHR 0x0A] @ call_end)))
   = [JString ''b'']"
  by code_simp

lemma open_invoke_info:
  "containsFunctionCalls no_language_tag \<lparr>textContent = open_invoke, codeChild = None\<rparr> =
     Inr \<lparr>hasFunctionCalls = True, isComplete = True, hasInvoke = True, hasParameters = True,
          hasClosingTags = True, languageTag = None, detectedBlockType = Some ''xml'',
          partialTagDetected = False, invokeName = Some (JString ''read_file''), callId = None,
          fi_textContent = None, description = None\<rparr>"
  by code_simp

lemma open_invoke_tags:
  "str_includes (contentToExamine no_language_tag (trim open_invoke)) ''<function_calls>''
   \<and> str_includes (contentToExamine no_language_tag (trim open_invoke)) ''</function_calls>''
   \<and> \<not> str_includes open_invoke ''</invoke>''"
  by code_simp

lemma parameter_x_5_line:
  "parseJSONLine parameter_x_5 =
     Inr (Some (JObject [(''type'', JString ''parameter''), (''key'', JString ''x''), (''value'', JNumber ''5'')]))"
  by code_simp

lemma first_pass_start: "first_pass [start_t_1] [] = Inr []"
  by code_simp

lemma scenario2_invokes: "invoke_texts scenario2 = [rawText streamed]"
  by code_simp

lemma json_unclosed_invokes: "invoke_texts json_unclosed = []"
  by code_simp

lemma closed_then_open_invokes: "invoke_texts closed_then_open = [''<invoke name=\"a\"></invoke>'']"
  by code_simp

lemma start_nameless_line:
  "startsWith (trim start_nameless) ''{''
   \<and> JSON_parse (trim start_nameless) = Inr (JObject [(''type'', JString ''function_call_start'')])"
  by code_simp

subsection \<open>C1: at most one hand-over\<close>

text \<open>
  C1, as the code has it. The ledger of the code is \<open>processedElements\<close>, a set of code
  block elements: it is keyed by the element, not by the identity of an invocation. In
  every sequence of scans an element never leaves \<open>processedElements\<close>; an element that
  is there is skipped, before its text is parsed, and no later scan hands anything of it
  to the consumer; and a scan that hands something of an element over puts the element
  there. What the consumer receives of one element in the whole sequence is nothing, or
  the list that one call of \<open>parseMessage\<close> on one text of the element returned, each
  tool call of that list once and in its order.
\<close>

theorem C1_at_most_once_per_element:
  assumes "scans clock ext docs1 = Inr ext1" and "scans clock ext1 docs2 = Inr ext2"
  shows "processedElements ext \<subseteq> processedElements ext1
       \<and> processedElements ext1 \<subseteq> processedElements ext2
       \<and> (el \<in> processedElements ext1 \<longrightarrow>
            scan_block clock ext1 (el, t) = Inr ext1 \<and> handed el ext2 = handed el ext1)
       \<and> (handed el ext1 \<noteq> handed el ext \<longrightarrow>
            el \<in> processedElements ext1 \<and> handed el ext2 = handed el ext1)
       \<and> (handed el ext2 = handed el ext
           \<or> (\<exists>t' q calls q'. (el, t') \<in> set (concat (docs1 @ docs2))
                  \<and> parseMessage clock q t' = Inr (calls, q') \<and> calls \<noteq> []
                  \<and> handed el ext2 = handed el ext @ map (Pair el) calls))"
proof -
  have s: "el \<in> processedElements ext1 \<longrightarrow> scan_block clock ext1 (el, t) = Inr ext1"
    by (simp add: scan_block_def)
  have w: "scans clock ext (docs1 @ docs2) = Inr ext2"
    using assms by (simp add: scans_append)
  have o: "handed el ext2 = handed el ext
           \<or> (\<exists>t' q calls q'. (el, t') \<in> set (concat (docs1 @ docs2))
                  \<and> parseMessage clock q t' = Inr (calls, q') \<and> calls \<noteq> []
                  \<and> handed el ext2 = handed el ext @ map (Pair el) calls)"
    using scans_once[OF w, of el] by blast
  show ?thesis
    using s o scans_mono[OF assms(1)] scans_mono[OF assms(2)] scans_skip[OF assms(2)]
      scans_handed[OF assms(1)]
    by blast
qed

text \<open>
  The witness: element 0 is scanned while its text is still streaming, then again when
  the text is complete. The first scan hands the streaming invocation over, once; the
  second skips the element and hands nothing over.
\<close>

theorem C1_at_most_once_per_element_witness:
  "scans clock0 ext0 [[(0, scenario2)]] = Inr ext_streamed
   \<and> scans clock0 ext_streamed [[(0, scenario1)]] = Inr ext_streamed
   \<and> handed 0 ext_streamed \<noteq> handed 0 ext0
   \<and> 0 \<in> processedElements ext_streamed
   \<and> processedElements ext0 \<subseteq> processedElements ext_streamed
   \<and> scan_block clock0 ext_streamed (0, scenario1) = Inr ext_streamed
   \<and> parseMessage clock0 parser0 scenario2 = Inr ([streamed], parser0)
   \<and> handed 0 ext_streamed = handed 0 ext0 @ map (Pair 0) [streamed]"
proof -
  have d: "handed 0 ext_streamed \<noteq> handed 0 ext0" by code_simp
  have h: "handed 0 ext_streamed = handed 0 ext0 @ map (Pair 0) [streamed]" by code_simp
  from C1_at_most_once_per_element[OF scenario2_scan scenario1_rescan, of 0 scenario1] d
  show ?thesis using scenario2_scan scenario1_rescan scenario2_parse h by blast
qed

text \<open>
  The claim as stated, for every identity, fails: two invocations of one snapshot that
  carry the same call id are both handed over.
\<close>

theorem C1_counterexample:
  "handed_ids 0 (scans clock0 ext0 [[(0, same_call_id)]]) = [''1'', ''1'']"
  by code_simp

subsection \<open>C2: a candidate without its closing marker\<close>

text \<open>
  C2, as the code has it. \<open>parseMessage\<close> has one output list and a tool call carries no
  lifecycle. The XML matcher returns one tool call for every match of \<open>invokeRegex\<close> in
  the contents it examines, in their order, whether the match ended at \<open></invoke>\<close> or
  at the end of the content. The contents it examines are those of the closed containers
  when the text has one, and otherwise the rest of the text after the first
  \<open><function_calls>\<close>: an unclosed container is examined only when no container of the
  text is closed. When there is such a match, these tool calls are the output of
  \<open>parseMessage\<close>; when there is none, the output is that of the JSON matcher, which
  appends a call with a truthy name that is still open when the lines end. A scan parses
  the text of an element only when the element is not yet processed and the text
  contains \<open><function_calls>\<close> or \<open><invoke\<close>; it then hands everything that
  \<open>parseMessage\<close> returns to the consumer, and marks the element processed when that
  list is not empty.
\<close>

theorem C2_unclosed_is_handed_over:
  "(\<exists>calls p'. parseXMLFormat clock p text = Inr (calls, p')
        \<and> map rawText calls = invoke_texts text)
   \<and> (invoke_texts text \<noteq> [] \<longrightarrow>
        (\<exists>calls p'. parseMessage clock p text = Inr (calls, p')
             \<and> map rawText calls = invoke_texts text
             \<and> list_all (\<lambda>c. format c = Fxml) calls))
   \<and> (invoke_texts text = [] \<longrightarrow> parseMessage clock p text = parseJSONFormat clock p text)
   \<and> (json_lines clock (split_nl text) ([], None, p) = (done, Some cur, p'') \<and> truthy (toolName cur)
        \<longrightarrow> parseJSONFormat clock p text = Inr (done @ [cur], p''))
   \<and> (\<exists>toolCalls q. parseMessage clock (parser ext) text = Inr (toolCalls, q)
        \<and> scan_block clock ext (codeElement, text) =
            Inr (if codeElement \<in> processedElements ext
                    \<or> \<not> (str_includes text ''<function_calls>'' \<or> str_includes text ''<invoke'')
                 then ext
                 else ext\<lparr>processedElements :=
                            (if toolCalls = [] then processedElements ext
                             else insert codeElement (processedElements ext)),
                          parser := q,
                          injected := injected ext @ map (Pair codeElement) toolCalls\<rparr>))"
proof -
  obtain xs p1 where x: "parseXMLFormat clock p text = Inr (xs, p1)"
    using parseXMLFormat_total[of clock p "text"] by auto
  have r: "map rawText xs = invoke_texts text" using x by (rule parseXMLFormat_rawText)
  have f: "list_all (\<lambda>c. format c = Fxml) xs" using x by (rule parseXMLFormat_format)
  note m = parseMessage_cases[OF x]
  have a: "\<exists>calls p'. parseXMLFormat clock p text = Inr (calls, p')
             \<and> map rawText calls = invoke_texts text"
    using x r by blast
  have b: "invoke_texts text \<noteq> [] \<longrightarrow>
        (\<exists>calls p'. parseMessage clock p text = Inr (calls, p')
             \<and> map rawText calls = invoke_texts text
             \<and> list_all (\<lambda>c. format c = Fxml) calls)"
  proof
    assume "invoke_texts text \<noteq> []"
    with r have "xs \<noteq> []" by auto
    with m have "parseMessage clock p text = Inr (xs, p1)" by simp
    with r f show "\<exists>calls p'. parseMessage clock p text = Inr (calls, p')
             \<and> map rawText calls = invoke_texts text
             \<and> list_all (\<lambda>c. format c = Fxml) calls" by blast
  qed
  have c: "invoke_texts text = [] \<longrightarrow> parseMessage clock p text = parseJSONFormat clock p text"
  proof
    assume "invoke_texts text = []"
    from parseXMLFormat_none[OF x this] m
    show "parseMessage clock p text = parseJSONFormat clock p text" by simp
  qed
  have d: "json_lines clock (split_nl text) ([], None, p) = (done, Some cur, p'') \<and> truthy (toolName cur)
        \<longrightarrow> parseJSONFormat clock p text = Inr (done @ [cur], p'')"
    by (simp add: parseJSONFormat_def)
  obtain toolCalls q where pm: "parseMessage clock (parser ext) text = Inr (toolCalls, q)"
    using parseMessage_total[of clock "parser ext" "text"] by auto
  note e = scan_block_eq[OF pm, of codeElement]
  from a b c d pm e show ?thesis by blast
qed

text \<open>
  The witness. The streaming text of scenario 2 has neither \<open></invoke>\<close> nor
  \<open></function_calls>\<close>: its one match of \<open>invokeRegex\<close> runs to the end of the text, is
  returned as a tool call and is handed over by the scan. The text of a JSON start line
  and an argument line that no end line follows has no match of \<open>invokeRegex\<close>, and the
  JSON matcher returns its open call. In the third text a closed container is followed by
  an unclosed one: only the invocation of the closed container is matched and returned.
\<close>

theorem C2_unclosed_is_handed_over_witness:
  "invoke_texts scenario2 = [rawText streamed]
   \<and> parseMessage clock0 parser0 scenario2 = Inr ([streamed], parser0)
   \<and> scan_block clock0 ext0 (0, scenario2) = Inr ext_streamed
   \<and> invoke_texts json_unclosed = []
   \<and> parseMessage clock0 parser0 json_unclosed = parseJSONFormat clock0 parser0 json_unclosed
   \<and> json_lines clock0 (split_nl json_unclosed) ([], None, parser0) = ([], Some open_t, \<lparr>idCounter = 1\<rparr>)
   \<and> truthy (toolName open_t)
   \<and> parseJSONFormat clock0 parser0 json_unclosed = Inr ([] @ [open_t], \<lparr>idCounter = 1\<rparr>)
   \<and> invoke_texts closed_then_open = [''<invoke name=\"a\"></invoke>'']
   \<and> (\<exists>calls p'. parseMessage clock0 parser0 closed_then_open = Inr (calls, p')
          \<and> map rawText calls = [''<invoke name=\"a\"></invoke>''])"
proof -
  note w3 = C2_unclosed_is_handed_over[of clock0 parser0 closed_then_open "[]" open_t parser0 ext0 0]
  have n3: "invoke_texts closed_then_open \<noteq> []" using closed_then_open_invokes by simp
  from w3 n3 closed_then_open_invokes
  have d: "\<exists>calls p'. parseMessage clock0 parser0 closed_then_open = Inr (calls, p')
          \<and> map rawText calls = [''<invoke name=\"a\"></invoke>'']" by auto
  note w1 = C2_unclosed_is_handed_over[of clock0 parser0 scenario2 "[]" open_t parser0 ext0 0]
  note w2 = C2_unclosed_is_handed_over[of clock0 parser0 json_unclosed "[]" open_t "\<lparr>idCounter = 1\<rparr>" ext0 0]
  have n: "invoke_texts scenario2 \<noteq> []" using scenario2_invokes by simp
  from w1 n have a: "\<exists>calls p'. parseMessage clock0 parser0 scenario2 = Inr (calls, p')
             \<and> map rawText calls = invoke_texts scenario2" by blast
  have s: "scan_block clock0 ext0 (0, scenario2) = Inr ext_streamed" by code_simp
  from w2 json_unclosed_invokes
  have b: "parseMessage clock0 parser0 json_unclosed = parseJSONFormat clock0 parser0 json_unclosed"
    by blast
  have t: "truthy (toolName open_t)" by (simp add: open_t_def truthy_def)
  from w2 json_unclosed_loop t
  have c: "parseJSONFormat clock0 parser0 json_unclosed = Inr ([] @ [open_t], \<lparr>idCounter = 1\<rparr>)"
    by blast
  show ?thesis
    using a scenario2_invokes scenario2_parse[of clock0 parser0] s json_unclosed_invokes b
      json_unclosed_loop t c closed_then_open_invokes d
    by blast
qed

text \<open>
  The claim as stated fails: the candidate of scenario 2 lacks both closing tags and is
  handed to the consumer, with the identity 1.
\<close>

theorem C2_counterexample:
  "\<not> str_includes scenario2 ''</invoke>''
   \<and> \<not> str_includes scenario2 ''</function_calls>''
   \<and> handed_ids 0 (scans clock0 ext0 [[(0, scenario2)]]) = [''1'']"
  by code_simp

subsection \<open>C3: completeness of an XML block\<close>

text \<open>
  C3, as the code has it. For a block that \<open>containsFunctionCalls\<close> classifies as XML,
  \<open>isComplete\<close> holds if and only if the examined content contains \<open><function_calls>\<close>
  and contains \<open></function_calls>\<close>. The closing tag of the invocation is not looked at.
\<close>

theorem C3_complete_iff_container_tags:
  assumes "containsFunctionCalls elt b = Inr r"
    and "detectedBlockType r = Some ''xml''"
  shows "isComplete r =
           (str_includes (contentToExamine elt (trim (textContent b))) ''<function_calls>''
            \<and> str_includes (contentToExamine elt (trim (textContent b))) ''</function_calls>'')"
proof -
  obtain jr where jr: "containsJSONFunctionCalls b = Inr jr"
    using assms(1) by (cases "containsJSONFunctionCalls b") (auto simp: containsFunctionCalls_def Let_def)
  have nx: "detectedBlockType jr \<noteq> Some ''xml''" using jr by (rule json_info_block_type)
  have nn: "detectedBlockType no_function_info \<noteq> Some ''xml''" by (simp add: no_function_info_def)
  from assms(1) jr have
    "r = no_function_info \<or> (\<exists>d. r = jr\<lparr>description := d\<rparr>)
     \<or> r = xml_function_info (fst (elt (trim (textContent b)))) (contentToExamine elt (trim (textContent b)))"
    by (auto simp: containsFunctionCalls_def Let_def split: if_splits sum.splits prod.splits)
  with assms(2) nx nn have
    "r = xml_function_info (fst (elt (trim (textContent b)))) (contentToExamine elt (trim (textContent b)))"
    by auto
  with assms(2) show ?thesis using xml_function_info_complete by simp
qed

text \<open>
  The witness: a container that is closed around an invocation that is not.
\<close>

theorem C3_complete_iff_container_tags_witness:
  "containsFunctionCalls no_language_tag \<lparr>textContent = open_invoke, codeChild = None\<rparr> =
     Inr \<lparr>hasFunctionCalls = True, isComplete = True, hasInvoke = True, hasParameters = True,
          hasClosingTags = True, languageTag = None, detectedBlockType = Some ''xml'',
          partialTagDetected = False, invokeName = Some (JString ''read_file''), callId = None,
          fi_textContent = None, description = None\<rparr>
   \<and> str_includes (contentToExamine no_language_tag (trim open_invoke)) ''<function_calls>''
   \<and> str_includes (contentToExamine no_language_tag (trim open_invoke)) ''</function_calls>''"
  using C3_complete_iff_container_tags[OF open_invoke_info] open_invoke_info open_invoke_tags
  by simp

text \<open>
  The claim as stated fails: the invocation of this block has no \<open></invoke>\<close>, and the
  block is classified complete.
\<close>

theorem C3_counterexample:
  "\<not> str_includes open_invoke ''</invoke>''
   \<and> map_sum id isComplete
        (containsFunctionCalls no_language_tag \<lparr>textContent = open_invoke, codeChild = None\<rparr>)
      = Inr True"
  by code_simp

subsection \<open>C4: the matchers that run\<close>

text \<open>
  C4, as the code has it. \<open>parseMessage\<close> runs the JSON matcher only when the XML matcher
  returned no candidate. When the XML matcher returns candidates, they are the whole
  output and all of them are XML; otherwise the output is that of the JSON matcher.
\<close>

theorem C4_json_matcher_only_when_xml_empty:
  assumes "parseXMLFormat clock p text = Inr (xmlCalls, p1)"
  shows "(xmlCalls \<noteq> [] \<longrightarrow>
            parseMessage clock p text = Inr (xmlCalls, p1)
            \<and> list_all (\<lambda>c. format c = Fxml) xmlCalls)
       \<and> (xmlCalls = [] \<longrightarrow> parseMessage clock p text = parseJSONFormat clock p1 text)"
proof -
  have f: "list_all (\<lambda>c. format c = Fxml) xmlCalls" using assms by (rule parseXMLFormat_format)
  obtain js p2 where j: "parseJSONFormat clock p1 text = Inr (js, p2)"
    by (cases "parseJSONFormat clock p1 text") (auto simp: parseJSONFormat_def split: prod.splits)
  show ?thesis using assms f j by (simp add: parseMessage_def)
qed

text \<open>
  The witness: scenario 1 followed by the two lines of a JSON call, where the XML
  matcher returns a candidate; and a text of JSON lines only, where it returns none.
\<close>

theorem C4_json_matcher_only_when_xml_empty_witness:
  "parseXMLFormat clock0 parser0 xml_and_json =
     Inr ([call_read_file ''/tmp/test.txt''
             ''<invoke name=\"read_file\" call_id=\"1\"><parameter name=\"path\">/tmp/test.txt</parameter></invoke>''], parser0)
   \<and> parseMessage clock0 parser0 xml_and_json =
     Inr ([call_read_file ''/tmp/test.txt''
             ''<invoke name=\"read_file\" call_id=\"1\"><parameter name=\"path\">/tmp/test.txt</parameter></invoke>''], parser0)
   \<and> parseXMLFormat clock0 parser0 json_unclosed = Inr ([], parser0)
   \<and> parseMessage clock0 parser0 json_unclosed = Inr ([open_t], \<lparr>idCounter = 1\<rparr>)"
  using C4_json_matcher_only_when_xml_empty[OF xml_and_json_xml, of clock0 parser0] xml_and_json_xml
    C4_json_matcher_only_when_xml_empty[OF json_unclosed_xml] json_unclosed_xml json_unclosed_json
  by simp

text \<open>
  The claim as stated fails: on this snapshot the JSON matcher alone finds the JSON call,
  and \<open>parseMessage\<close> returns the XML call only.
\<close>

theorem C4_counterexample:
  "map format (calls_of (parseJSONFormat clock0 parser0 xml_and_json)) = [Fjson]
   \<and> map format (calls_of (parseMessage clock0 parser0 xml_and_json)) = [Fxml]"
  by code_simp

subsection \<open>C5: the identity of a candidate without call id\<close>




subsection \<open>C6: totality\<close>

text \<open>
  C6 fails of the classifier of jsonFunctionParser.ts. A start line whose \<open>call_id\<close> is
  an object with a property \<open>toString\<close> parses, and \<open>parsed.call_id?.toString()\<close> then
  calls what is not a function: \<open>containsJSONFunctionCalls\<close>, \<open>extractJSONFunctionInfo\<close>
  and, above them, \<open>containsFunctionCalls\<close> end in a \<open>TypeError\<close>, which no \<open>try\<close>
  encloses. \<open>extractJSONParameters\<close> ends in a \<open>TypeError\<close> once a parameter is named
  \<open>hasOwnProperty\<close> and its second pass finds a key. On the same lines \<open>parseMessage\<close>,
  whose JSON matcher encloses the work on a line in a \<open>try\<close>, returns, as it does on every
  text.
\<close>

theorem C6_classifier_throws:
  "parseJSONLine start_toString =
     Inr (Some (JObject [(''type'', JString ''function_call_start''), (''name'', JString ''t''),
                         (''call_id'', JObject [(''toString'', JNumber ''1'')])]))
   \<and> containsJSONFunctionCalls \<lparr>textContent = toString_call, codeChild = None\<rparr> = Inl TypeError
   \<and> containsFunctionCalls no_language_tag \<lparr>textContent = toString_call, codeChild = None\<rparr> = Inl TypeError
   \<and> extractJSONFunctionInfo toString_call = Inl TypeError
   \<and> extractJSONParameters parameter_hasOwnProperty = Inl TypeError
   \<and> map toolName (calls_of (parseMessage clock0 parser0 toString_call)) = [JString ''t'']"
  by code_simp

subsection \<open>C7: the parameters of a JSON call\<close>

text \<open>
  C7, as the code has it. For the three lines of scenario 4, \<open>extractJSONParameters\<close>
  maps \<open>x\<close> to the number 5, which is not the string 5, and
  \<open>containsJSONFunctionCalls\<close> reports one complete call of \<open>t\<close> with call id 1.
  \<open>parseMessage\<close> returns one tool call for them, with a generated identity and with no
  argument: its JSON matcher takes its arguments from \<open>function_call_arg\<close> lines, which
  carry \<open>name\<close> and \<open>value\<close>, and passes over \<open>parameter\<close> lines. In the first pass of
  \<open>extractJSONParameters\<close>, a \<open>parameter\<close> line that parses, whose key is a non-empty
  string other than \<open>__proto__\<close> and whose value is not \<open>null\<close>, sets its key to its value,
  whatever an earlier line gave to the key, and leaves the other keys as they were: the
  lines take effect in their order and the last one wins.
\<close>

theorem C7_json_parameters:
  "extractJSONParameters scenario4 = Inr [(''x'', JNumber ''5'')]
   \<and> JNumber ''5'' \<noteq> JString ''5''
   \<and> map_sum id (\<lambda>i. (isComplete i, invokeName i, callId i))
        (containsJSONFunctionCalls \<lparr>textContent = scenario4, codeChild = None\<rparr>)
      = Inr (True, Some (JString ''t''), Some ''1'')
   \<and> map (\<lambda>c. (tc_id c, toolName c, arguments c)) (calls_of (parseMessage clock0 parser0 scenario4))
      = [(''tool-call-0-0'', JString ''t'', [])]
   \<and> (first_pass ls ps = Inr ps1
        \<and> parseJSONLine line = Inr (Some parsed)
        \<and> own_prop parsed ''type'' = Some (JString ''parameter'')
        \<and> own_prop parsed ''key'' = Some (JString k) \<and> k \<noteq> [] \<and> k \<noteq> ''__proto__''
        \<and> own_prop parsed ''value'' = Some v \<and> v \<noteq> JNull
        \<longrightarrow> first_pass (ls @ [line]) ps = Inr (AList.update k v ps1)
            \<and> map_of (AList.update k v ps1) = (map_of ps1)(k \<mapsto> v))"
proof -
  have a: "extractJSONParameters scenario4 = Inr [(''x'', JNumber ''5'')]" by code_simp
  have b: "map_sum id (\<lambda>i. (isComplete i, invokeName i, callId i))
             (containsJSONFunctionCalls \<lparr>textContent = scenario4, codeChild = None\<rparr>)
           = Inr (True, Some (JString ''t''), Some ''1'')" by code_simp
  have c: "map (\<lambda>c. (tc_id c, toolName c, arguments c)) (calls_of (parseMessage clock0 parser0 scenario4))
           = [(''tool-call-0-0'', JString ''t'', [])]" by code_simp
  show ?thesis using a b c first_pass_last_wins[of ls ps ps1 line parsed k v] by simp
qed

theorem C7_json_parameters_witness:
  "first_pass [start_t_1] [] = Inr []
   \<and> parseJSONLine parameter_x_5 =
       Inr (Some (JObject [(''type'', JString ''parameter''), (''key'', JString ''x''), (''value'', JNumber ''5'')]))
   \<and> first_pass ([start_t_1] @ [parameter_x_5]) [] = Inr [(''x'', JNumber ''5'')]"
  using C7_json_parameters[of "[start_t_1]" "[]" "[]" parameter_x_5
      "JObject [(''type'', JString ''parameter''), (''key'', JString ''x''), (''value'', JNumber ''5'')]"
      "''x''" "JNumber ''5''"]
    first_pass_start parameter_x_5_line
  by (simp add: own_prop_def)

text \<open>
  The claim as stated fails: the one tool call that \<open>parseMessage\<close> returns for scenario
  4 has no argument \<open>x\<close>, and its identity is not the call id 1 of the text.
\<close>

theorem C7_counterexample:
  "map arguments (calls_of (parseMessage clock0 parser0 scenario4)) = [[]]
   \<and> map tc_id (calls_of (parseMessage clock0 parser0 scenario4)) = [''tool-call-0-0'']"
  by code_simp

subsection \<open>C8: objects concatenated on one line\<close>

text \<open>
  C8, as the code has it. For the single line of scenario 5,
  \<open>containsJSONFunctionCalls\<close> splits at the boundary between the objects, puts the
  braces back, and reports one complete call of \<open>t\<close>. \<open>parseMessage\<close> does not split:
  the line is not one JSON text, and it returns no tool call.
\<close>

theorem C8_concatenated_objects:
  "reattach (split_rx singleLine_rx scenario5) = [start_t, call_end]
   \<and> containsJSONFunctionCalls \<lparr>textContent = scenario5, codeChild = None\<rparr> =
       Inr \<lparr>hasFunctionCalls = True, isComplete = True, hasInvoke = True, hasParameters = False,
            hasClosingTags = True, languageTag = None, detectedBlockType = Some ''json'',
            partialTagDetected = False, invokeName = Some (JString ''t''), callId = None,
            fi_textContent = None, description = None\<rparr>
   \<and> parseMessage clock p scenario5 = Inr ([], p)"
  by code_simp

text \<open>
  The claim as stated fails where it cites \<open>parseJSONFormat\<close>: no invocation comes out.
\<close>

theorem C8_counterexample:
  "calls_of (parseJSONFormat clock0 parser0 scenario5) = []
   \<and> calls_of (parseMessage clock0 parser0 scenario5) = []"
  by code_simp

subsection \<open>C9: a complete XML invocation\<close>

text \<open>
  C9. For the input of scenario 1,
  \<open><function_calls><invoke name="read_file" call_id="1"><parameter name="path">/tmp/test.txt</parameter></invoke></function_calls>\<close>,
  \<open>parseMessage\<close> returns exactly one invocation, whose identity is the call id \<open>1\<close> of
  the text, whose tool name is \<open>read_file\<close> and whose arguments map \<open>path\<close> to the string
  \<open>/tmp/test.txt\<close>; no identity is generated, whatever the clock and the counter are.
\<close>

theorem C9_complete_xml_extraction:
  "parseMessage clock p scenario1 =
     Inr ([\<lparr>tc_id = ''1'', toolName = JString ''read_file'',
            arguments = [(''path'', JString ''/tmp/test.txt'')],
            rawText = ''<invoke name=\"read_file\" call_id=\"1\"><parameter name=\"path\">/tmp/test.txt</parameter></invoke>'',
            format = Fxml\<rparr>], p)"
  by code_simp

subsection \<open>C10: a second start before an end\<close>

text \<open>
  C10, as the code has it. In the loop of the JSON matcher, a line that parses to a
  \<open>function_call_start\<close> with a truthy name replaces the current call by the new one:
  the state after the line is the same whether a call was open before it or not, and
  \<open>toolCalls\<close> is unchanged. The call that was open is in no later output. A line that
  parses to a \<open>function_call_start\<close> whose name is absent or falsy is passed over: the
  state after the line is the state before it, and a call that was open stays open.
\<close>

theorem C10_second_start_discards_first:
  assumes "startsWith (trim line) ''{''"
    and "JSON_parse (trim line) = Inr j"
    and "get j ''type'' = Inr (Some (JString ''function_call_start''))"
  shows "(get j ''name'' = Inr (Some n) \<and> truthy n \<longrightarrow>
            json_lines clock (line # ls) (toolCalls, Some first, p) =
              json_lines clock ls
                (toolCalls,
                 Some \<lparr>tc_id = fst (generateId clock p), toolName = n, arguments = [],
                       rawText = trim line, format = Fjson\<rparr>,
                 snd (generateId clock p))
            \<and> json_lines clock (line # ls) (toolCalls, Some first, p) =
                json_lines clock (line # ls) (toolCalls, None, p))
       \<and> (get j ''name'' = Inr name \<and> \<not> truthy_opt name \<longrightarrow>
            json_lines clock (line # ls) (toolCalls, currentCall, p) =
              json_lines clock ls (toolCalls, currentCall, p))"
proof -
  obtain v where v: "get j ''value'' = Inr v" using get_value_total[OF assms(3)] by blast
  have a: "get j ''name'' = Inr (Some n) \<and> truthy n \<longrightarrow>
            json_lines clock (line # ls) (toolCalls, Some first, p) =
              json_lines clock ls
                (toolCalls,
                 Some \<lparr>tc_id = fst (generateId clock p), toolName = n, arguments = [],
                       rawText = trim line, format = Fjson\<rparr>,
                 snd (generateId clock p))
            \<and> json_lines clock (line # ls) (toolCalls, Some first, p) =
                json_lines clock (line # ls) (toolCalls, None, p)"
  proof
    assume h: "get j ''name'' = Inr (Some n) \<and> truthy n"
    have t: "\<And>cur. json_try clock (trim line) (toolCalls, cur, p) =
               Inr (toolCalls,
                    Some \<lparr>tc_id = fst (generateId clock p), toolName = n, arguments = [],
                          rawText = trim line, format = Fjson\<rparr>,
                    snd (generateId clock p))"
      using assms v h by (simp add: json_try_def truthy_opt_def split: prod.splits)
    show "json_lines clock (line # ls) (toolCalls, Some first, p) =
              json_lines clock ls
                (toolCalls,
                 Some \<lparr>tc_id = fst (generateId clock p), toolName = n, arguments = [],
                       rawText = trim line, format = Fjson\<rparr>,
                 snd (generateId clock p))
            \<and> json_lines clock (line # ls) (toolCalls, Some first, p) =
                json_lines clock (line # ls) (toolCalls, None, p)"
      using assms(1) t by (simp add: Let_def)
  qed
  have b: "get j ''name'' = Inr name \<and> \<not> truthy_opt name \<longrightarrow>
            json_lines clock (line # ls) (toolCalls, currentCall, p) =
              json_lines clock ls (toolCalls, currentCall, p)"
  proof
    assume h: "get j ''name'' = Inr name \<and> \<not> truthy_opt name"
    have "json_try clock (trim line) (toolCalls, currentCall, p) = Inr (toolCalls, currentCall, p)"
      using assms v h by (simp add: json_try_def)
    then show "json_lines clock (line # ls) (toolCalls, currentCall, p) =
              json_lines clock ls (toolCalls, currentCall, p)"
      using assms(1) by (simp add: Let_def)
  qed
  from a b show ?thesis by blast
qed

text \<open>
  The witness: a start of \<open>b\<close> while the call \<open>a\<close> is open, followed by an end: only
  \<open>b\<close> is returned; and a start without a name while the call \<open>a\<close> is open, which leaves
  \<open>a\<close> open.
\<close>

theorem C10_second_start_discards_first_witness:
  "startsWith (trim start_b) ''{''
   \<and> JSON_parse (trim start_b) = Inr (JObject [(''type'', JString ''function_call_start''), (''name'', JString ''b'')])
   \<and> truthy (JString ''b'')
   \<and> json_lines clock0 [start_b, call_end] ([], Some call_a, \<lparr>idCounter = 1\<rparr>) =
       json_lines clock0 [start_b, call_end] ([], None, \<lparr>idCounter = 1\<rparr>)
   \<and> map toolName (calls_of (parseJSONFormat clock0 parser0
        (''{\"type\":\"function_call_start\",\"name\":\"a\"}'' @ [CHR 0x0A] @ start_b @ [CHR 0x0A] @ call_end)))
      = [JString ''b'']
   \<and> startsWith (trim start_nameless) ''{''
   \<and> JSON_parse (trim start_nameless) = Inr (JObject [(''type'', JString ''function_call_start'')])
   \<and> json_lines clock0 [start_nameless, call_end] ([], Some call_a, \<lparr>idCounter = 1\<rparr>) =
       json_lines clock0 [call_end] ([], Some call_a, \<lparr>idCounter = 1\<rparr>)"
proof -
  have a: "startsWith (trim start_b) ''{''" using start_b_line by simp
  have b: "JSON_parse (trim start_b) = Inr (JObject [(''type'', JString ''function_call_start''), (''name'', JString ''b'')])"
    using start_b_line by simp
  have c: "get (JObject [(''type'', JString ''function_call_start''), (''name'', JString ''b'')]) ''type''
             = Inr (Some (JString ''function_call_start''))" by (simp add: get_def)
  have d: "get (JObject [(''type'', JString ''function_call_start''), (''name'', JString ''b'')]) ''name''
             = Inr (Some (JString ''b''))" by (simp add: get_def)
  have e: "truthy (JString ''b'')" by (simp add: truthy_def)
  note t = C10_second_start_discards_first[OF a b c, of "JString ''b''" clock0 "[call_end]" "[]" call_a
      "\<lparr>idCounter = 1\<rparr>" None None]
  from t d e have x: "json_lines clock0 [start_b, call_end] ([], Some call_a, \<lparr>idCounter = 1\<rparr>) =
                  json_lines clock0 [start_b, call_end] ([], None, \<lparr>idCounter = 1\<rparr>)"
    by blast
  have a': "startsWith (trim start_nameless) ''{''" using start_nameless_line by simp
  have b': "JSON_parse (trim start_nameless) = Inr (JObject [(''type'', JString ''function_call_start'')])"
    using start_nameless_line by simp
  have c': "get (JObject [(''type'', JString ''function_call_start'')]) ''type''
             = Inr (Some (JString ''function_call_start''))" by (simp add: get_def)
  have d': "get (JObject [(''type'', JString ''function_call_start'')]) ''name'' = Inr None"
    by (simp add: get_def)
  have e': "\<not> truthy_opt None" by (simp add: truthy_opt_def)
  note u = C10_second_start_discards_first[OF a' b' c', of JNull clock0 "[call_end]" "[]" call_a
      "\<lparr>idCounter = 1\<rparr>" None "Some call_a"]
  from u d' e' have y: "json_lines clock0 [start_nameless, call_end] ([], Some call_a, \<lparr>idCounter = 1\<rparr>) =
       json_lines clock0 [call_end] ([], Some call_a, \<lparr>idCounter = 1\<rparr>)"
    by blast
  show ?thesis using a b e x two_starts_parse a' b' y by blast
qed

text \<open>
  The claim as stated fails: after a start of \<open>a\<close>, a second start line that carries no
  name, and an end, the first call is not discarded: it is the one that is returned.
\<close>

theorem C10_counterexample:
  "map toolName (calls_of (parseJSONFormat clock0 parser0
      (start_a @ [CHR 0x0A] @ start_nameless @ [CHR 0x0A] @ call_end))) = [JString ''a'']
   \<and> map toolName (calls_of (parseMessage clock0 parser0
      (start_a @ [CHR 0x0A] @ start_nameless @ [CHR 0x0A] @ call_end))) = [JString ''a'']"
  by code_simp

end
